theory Spec2Isabelle
  imports Complex_Main
begin

section \<open>Abstract syntax (domain/ast\_nodes.py)\<close>

text \<open>
  Types, operators and literal kinds are Python strings in the source and stay strings here.
  A literal's value is an int, a float or a bool. The pipeline reads a float literal only
  through \<^verbatim>\<open>str(value)\<close> and \<^verbatim>\<open>bool(value)\<close>, so a float literal is
  kept as the text \<^verbatim>\<open>str\<close> renders for it.

  Every expression node has the slot \<^verbatim>\<open>inferred_type\<close>, \<open>None\<close> until semantic
  analysis fills it; it is the first argument of every expression constructor.
\<close>

datatype lit = IntLit int | FloatLit string | BoolLit bool

datatype expr =
    Assign "string option" string expr int int
  | Call "string option" string "expr list" int int
  | Literal "string option" lit string
  | Var "string option" string int int
  | Unary "string option" string expr
  | Binary "string option" expr string expr
  | Grouping "string option" expr

datatype param = Param (p_type: string) (p_name: string)

text \<open>
  The body of a \<open>FunctionDecl\<close> is a \<open>Block\<close> in the source; the constructor holds that
  block's statement list.
\<close>

datatype stmt =
    FunctionDecl string string "param list" "stmt list"
  | Block "stmt list"
  | VarDecl string string "expr option" int int
  | If_stmt expr stmt "stmt option"
  | While expr stmt
  | For "stmt option" "expr option" "stmt option" stmt
  | Print expr
  | Return "expr option"
  | ExprStmt expr

datatype program = Program "stmt list"

fun inferred_type :: "expr \<Rightarrow> string option" where
  "inferred_type (Assign t _ _ _ _) = t"
| "inferred_type (Call t _ _ _ _) = t"
| "inferred_type (Literal t _ _) = t"
| "inferred_type (Var t _ _ _) = t"
| "inferred_type (Unary t _ _) = t"
| "inferred_type (Binary t _ _ _) = t"
| "inferred_type (Grouping t _) = t"

section \<open>Decimal rendering of integers\<close>

definition digit_char :: "nat \<Rightarrow> char" where
  "digit_char d = ''0123456789'' ! d"

function str_nat :: "nat \<Rightarrow> string" where
  "str_nat n = (if n < 10 then [digit_char n] else str_nat (n div 10) @ [digit_char (n mod 10)])"
  by pat_completeness auto
termination
  by (relation "measure id") auto

declare str_nat.simps [simp del]

definition str_int :: "int \<Rightarrow> string" where
  "str_int i = (if i < 0 then CHR ''-'' # str_nat (nat (- i)) else str_nat (nat i))"

text \<open>\<^verbatim>\<open>str(e.value)\<close> and \<^verbatim>\<open>bool(e.value)\<close> of a literal's value.\<close>

fun str_lit :: "lit \<Rightarrow> string" where
  "str_lit (IntLit i) = str_int i"
| "str_lit (FloatLit s) = s"
| "str_lit (BoolLit b) = (if b then ''True'' else ''False'')"

fun bool_lit :: "lit \<Rightarrow> bool" where
  "bool_lit (IntLit i) = (i \<noteq> 0)"
| "bool_lit (FloatLit s) = (s \<noteq> ''0.0'' \<and> s \<noteq> ''-0.0'')"
| "bool_lit (BoolLit b) = b"

section \<open>Three-address IR and its builder (pipeline/ir.py)\<close>

datatype irinstr =
    Label string
  | Goto string
  | IfFalse string string
  | AssignInstr string string
  | BinOp string string string string
  | UnaryOp string string string
  | PrintInstr string
  | ReturnInstr "string option"
  | FuncStart string "string list"
  | FuncEnd string
  | CallInstr "string option" string "string list"

record irbuilder =
  ir_code :: "irinstr list"
  temp_counter :: nat
  label_counter :: nat

definition emit :: "irinstr \<Rightarrow> irbuilder \<Rightarrow> irbuilder" where
  "emit i b = b\<lparr>ir_code := ir_code b @ [i]\<rparr>"

definition new_temp :: "irbuilder \<Rightarrow> string \<times> irbuilder" where
  "new_temp b = (CHR ''t'' # str_nat (temp_counter b + 1), b\<lparr>temp_counter := temp_counter b + 1\<rparr>)"

definition new_label :: "string \<Rightarrow> irbuilder \<Rightarrow> string \<times> irbuilder" where
  "new_label base b =
     (base @ str_nat (label_counter b + 1), b\<lparr>label_counter := label_counter b + 1\<rparr>)"

text \<open>
  \<open>gen_expr\<close> returns the operand name and the builder after the emissions. The order of
  the source is kept: a unary or binary node takes its temporary before its operands are
  lowered, a call takes its destination before its arguments.
\<close>

fun gen_expr :: "expr \<Rightarrow> irbuilder \<Rightarrow> string \<times> irbuilder"
  and gen_args :: "expr list \<Rightarrow> irbuilder \<Rightarrow> string list \<times> irbuilder" where
  "gen_expr (Literal _ v kind) b =
     (if kind = ''bool'' then (if bool_lit v then ''1'' else ''0'', b) else (str_lit v, b))"
| "gen_expr (Var _ name _ _) b = (name, b)"
| "gen_expr (Assign _ name value _ _) b =
     (let (rhs, b1) = gen_expr value b in (name, emit (AssignInstr name rhs) b1))"
| "gen_expr (Unary _ op right) b =
     (let (t, b1) = new_temp b; (r, b2) = gen_expr right b1
      in (t, emit (UnaryOp t op r) b2))"
| "gen_expr (Binary _ left op right) b =
     (let (t, b1) = new_temp b; (l, b2) = gen_expr left b1; (r, b3) = gen_expr right b2
      in (t, emit (BinOp t op l r) b3))"
| "gen_expr (Grouping _ e) b = gen_expr e b"
| "gen_expr (Call ity name args _ _) b =
     (let (dst, b1) = (if ity = Some ''void'' then (None, b)
                       else (let (t, b') = new_temp b in (Some t, b')));
          (vs, b2) = gen_args args b1;
          b3 = emit (CallInstr dst name vs) b2
      in (case dst of None \<Rightarrow> ''0'' | Some t \<Rightarrow> t, b3))"
| "gen_args [] b = ([], b)"
| "gen_args (a # rest) b =
     (let (x, b1) = gen_expr a b; (xs, b2) = gen_args rest b1 in (x # xs, b2))"

text \<open>
  \<open>gen_stmt\<close>. The \<open>Block\<close> case of the source is
  \<^verbatim>\<open>for st in s.statements: self.gen_stmt(st); return\<close>:
  the \<^verbatim>\<open>return\<close> is part of the loop body, so the loop lowers the first statement and
  returns. On an empty block the loop body never runs, no later \<^verbatim>\<open>isinstance\<close> test
  matches a \<open>Block\<close>, and nothing is emitted. The body of a function is lowered by the same
  \<open>Block\<close> case.
\<close>

fun gen_stmt :: "stmt \<Rightarrow> irbuilder \<Rightarrow> irbuilder" where
  "gen_stmt (Block statements) b =
     (case statements of [] \<Rightarrow> b | st # _ \<Rightarrow> gen_stmt st b)"
| "gen_stmt (VarDecl _ name init _ _) b =
     (case init of
        Some e \<Rightarrow> (let (v, b1) = gen_expr e b in emit (AssignInstr name v) b1)
      | None \<Rightarrow> b)"
| "gen_stmt (If_stmt cond then_branch else_branch) b =
     (let (else_lbl, b1) = new_label ''Lelse'' b;
          (end_lbl, b2) = new_label ''Lend'' b1;
          (c, b3) = gen_expr cond b2;
          b4 = emit (IfFalse c else_lbl) b3;
          b5 = gen_stmt then_branch b4;
          b6 = emit (Goto end_lbl) b5;
          b7 = emit (Label else_lbl) b6;
          b8 = (case else_branch of Some e \<Rightarrow> gen_stmt e b7 | None \<Rightarrow> b7)
      in emit (Label end_lbl) b8)"
| "gen_stmt (While cond body) b =
     (let (start, b1) = new_label ''Lwhile'' b;
          (end_lbl, b2) = new_label ''Lwend'' b1;
          b3 = emit (Label start) b2;
          (c, b4) = gen_expr cond b3;
          b5 = emit (IfFalse c end_lbl) b4;
          b6 = gen_stmt body b5;
          b7 = emit (Goto start) b6
      in emit (Label end_lbl) b7)"
| "gen_stmt (For init cond post body) b =
     (let (start, b1) = new_label ''Lfor'' b;
          (end_lbl, b2) = new_label ''Lfend'' b1;
          b3 = (case init of Some s \<Rightarrow> gen_stmt s b2 | None \<Rightarrow> b2);
          b4 = emit (Label start) b3;
          b5 = (case cond of
                  Some e \<Rightarrow> (let (c, b') = gen_expr e b4 in emit (IfFalse c end_lbl) b')
                | None \<Rightarrow> b4);
          b6 = gen_stmt body b5;
          b7 = (case post of Some s \<Rightarrow> gen_stmt s b6 | None \<Rightarrow> b6);
          b8 = emit (Goto start) b7
      in emit (Label end_lbl) b8)"
| "gen_stmt (Print e) b = (let (v, b1) = gen_expr e b in emit (PrintInstr v) b1)"
| "gen_stmt (Return eo) b =
     (case eo of
        Some e \<Rightarrow> (let (v, b1) = gen_expr e b in emit (ReturnInstr (Some v)) b1)
      | None \<Rightarrow> emit (ReturnInstr None) b)"
| "gen_stmt (ExprStmt e) b = snd (gen_expr e b)"
| "gen_stmt (FunctionDecl _ name params body) b =
     (let b1 = emit (FuncStart name (map p_name params)) b;
          b2 = (case body of [] \<Rightarrow> b1 | st # _ \<Rightarrow> gen_stmt st b1)
      in emit (FuncEnd name) b2)"

fun gen_body :: "stmt list \<Rightarrow> irbuilder \<Rightarrow> irbuilder" where
  "gen_body [] b = b"
| "gen_body (s # ss) b = gen_body ss (gen_stmt s b)"

definition ir_gen :: "program \<Rightarrow> irinstr list" where
  "ir_gen typed_root =
     (case typed_root of Program body \<Rightarrow>
        ir_code (gen_body body \<lparr>ir_code = [], temp_counter = 0, label_counter = 0\<rparr>))"

subsection \<open>Lowering of blocks\<close>

lemma gen_stmt_Block_Cons: "gen_stmt (Block (st # rest)) b = gen_stmt st b"
  by simp

text \<open>
  Claim C1: the IR builder lowers a \<open>Block\<close> by emitting the lowering of every one of its
  statements in source order, so all \<open>k\<close> statements of a block that is the then-branch of
  an \<open>If\<close> appear between the \<open>IfFalse\<close> and the \<open>Goto\<close>.

  The code does not: for \<^verbatim>\<open>if (true) { print(1); print(2); }\<close> the emitted IR holds
  the lowering of the first statement only; \<^verbatim>\<open>print 2\<close> is lost.
\<close>

theorem ir_gen_if_block_keeps_first_only:
  "ir_gen (Program [If_stmt (Literal (Some ''bool'') (BoolLit True) ''bool'')
      (Block [Print (Literal (Some ''int'') (IntLit 1) ''int''),
              Print (Literal (Some ''int'') (IntLit 2) ''int'')]) None])
   = [IfFalse ''1'' ''Lelse1'', PrintInstr ''1'', Goto ''Lend2'', Label ''Lelse1'',
      Label ''Lend2'']"
  by (simp add: ir_gen_def new_label_def emit_def str_nat.simps str_int_def digit_char_def)

section \<open>Dead-code elimination (pipeline/optimizer.py)\<close>

definition is_digit :: "char \<Rightarrow> bool" where
  "is_digit c = (c \<in> set ''0123456789'')"

text \<open>
  \<^verbatim>\<open>TEMP_RE = re.compile(r"^t\d+$")\<close>, used with \<^verbatim>\<open>match\<close>: a \<open>t\<close>, one or
  more digits, and the end of the string, which \<^verbatim>\<open>$\<close> also finds before one final
  newline. Digits outside ASCII are not modelled.
\<close>

definition is_temp :: "string \<Rightarrow> bool" where
  "is_temp name =
     (case name of
        [] \<Rightarrow> False
      | c # ds \<Rightarrow>
          c = CHR ''t'' \<and>
          (let ds' = (if ds \<noteq> [] \<and> last ds = CHR 0x0A then butlast ds else ds)
           in ds' \<noteq> [] \<and> list_all is_digit ds'))"

text \<open>
  \<open>is_const\<close> asks whether Python's \<^verbatim>\<open>float(x)\<close> accepts the operand. \<^verbatim>\<open>float\<close> is a
  builtin, not code of the repository: every function that needs it takes the predicate
  \<open>is_float\<close> (\<open>float(x)\<close> does not raise) as its first argument.
\<close>

definition is_const :: "(string \<Rightarrow> bool) \<Rightarrow> string \<Rightarrow> bool" where
  "is_const is_float x = (is_float x \<or> x = ''0'' \<or> x = ''1'')"

fun used_vars :: "irinstr \<Rightarrow> string list" where
  "used_vars (BinOp _ _ left right) = [left, right]"
| "used_vars (UnaryOp _ _ operand) = [operand]"
| "used_vars (AssignInstr _ src) = [src]"
| "used_vars (IfFalse cond _) = [cond]"
| "used_vars (PrintInstr v) = [v]"
| "used_vars (ReturnInstr (Some v)) = [v]"
| "used_vars _ = []"

fun defined_var :: "irinstr \<Rightarrow> string option" where
  "defined_var (AssignInstr dst _) = Some dst"
| "defined_var (BinOp dst _ _ _) = Some dst"
| "defined_var (UnaryOp dst _ _) = Some dst"
| "defined_var _ = None"

fun has_side_effect :: "irinstr \<Rightarrow> bool" where
  "has_side_effect (PrintInstr _) = True"
| "has_side_effect (ReturnInstr _) = True"
| "has_side_effect (IfFalse _ _) = True"
| "has_side_effect (Goto _) = True"
| "has_side_effect (Label _) = True"
| "has_side_effect (AssignInstr dst _) = (\<not> is_temp dst)"
| "has_side_effect _ = False"

definition add_used :: "(string \<Rightarrow> bool) \<Rightarrow> irinstr \<Rightarrow> string set \<Rightarrow> string set" where
  "add_used is_float ins live =
     fold (\<lambda>u l. if \<not> is_const is_float u then insert u l else l) (used_vars ins) live"

text \<open>
  The loop of \<open>dce\<close> over \<^verbatim>\<open>reversed(ir)\<close>, with the live set and \<^verbatim>\<open>out_rev\<close> as
  its state. \<open>dce_keep\<close> is the test of the loop body, \<open>live_kept\<close> the live set after a
  kept instruction (its used operands added, then its destination removed).
\<close>

definition dce_keep :: "irinstr \<Rightarrow> string set \<Rightarrow> bool" where
  "dce_keep ins live =
     (let d = defined_var ins in
      has_side_effect ins \<or> (case d of Some x \<Rightarrow> x \<in> live | None \<Rightarrow> False) \<or> d = None)"

definition live_kept :: "(string \<Rightarrow> bool) \<Rightarrow> irinstr \<Rightarrow> string set \<Rightarrow> string set" where
  "live_kept is_float ins live =
     (let live1 = add_used is_float ins live in
      case defined_var ins of
        Some x \<Rightarrow> if x \<in> live1 then live1 - {x} else live1
      | None \<Rightarrow> live1)"

fun dce_loop :: "(string \<Rightarrow> bool) \<Rightarrow> irinstr list \<Rightarrow> string set \<Rightarrow> irinstr list \<Rightarrow> irinstr list" where
  "dce_loop is_float [] live out_rev = out_rev"
| "dce_loop is_float (ins # rest) live out_rev =
     (if dce_keep ins live
      then dce_loop is_float rest (live_kept is_float ins live) (out_rev @ [ins])
      else dce_loop is_float rest (add_used is_float ins live) out_rev)"

definition dce :: "(string \<Rightarrow> bool) \<Rightarrow> irinstr list \<Rightarrow> irinstr list" where
  "dce is_float ir = rev (dce_loop is_float (rev ir) {} [])"

subsection \<open>Writes to user variables\<close>

lemma dce_loop_keeps_out: "set out_rev \<subseteq> set (dce_loop is_float xs live out_rev)"
proof (induction xs arbitrary: live out_rev)
  case Nil
  show ?case by simp
next
  case (Cons ins xs)
  have a: "set (out_rev @ [ins]) \<subseteq> set (dce_loop is_float xs L (out_rev @ [ins]))" for L
    by (rule Cons.IH)
  have b: "set out_rev \<subseteq> set (dce_loop is_float xs L out_rev)" for L
    by (rule Cons.IH)
  show ?case
  proof (cases "dce_keep ins live")
    case True
    then show ?thesis using a [of "live_kept is_float ins live"] by auto
  next
    case False
    then show ?thesis using b by simp
  qed
qed

lemma dce_loop_keeps_effects:
  "ins \<in> set xs \<Longrightarrow> has_side_effect ins \<Longrightarrow> ins \<in> set (dce_loop is_float xs live out_rev)"
proof (induction xs arbitrary: live out_rev)
  case Nil
  then show ?case by simp
next
  case (Cons x xs)
  show ?case
  proof (cases "ins = x")
    case True
    then have keep: "dce_keep x live" using Cons.prems(2) by (simp add: dce_keep_def)
    have "ins \<in> set (out_rev @ [x])" using True by simp
    then have "ins \<in> set (dce_loop is_float xs (live_kept is_float x live) (out_rev @ [x]))"
      using dce_loop_keeps_out by blast
    then show ?thesis using keep by simp
  next
    case False
    then have "ins \<in> set xs" using Cons.prems(1) by simp
    then show ?thesis using Cons.IH Cons.prems(2) by simp
  qed
qed

lemma dce_keeps_user_assign:
  "AssignInstr dst src \<in> set ir \<Longrightarrow> \<not> is_temp dst \<Longrightarrow> AssignInstr dst src \<in> set (dce is_float ir)"
  by (simp add: dce_def dce_loop_keeps_effects)


section \<open>Bytecode (pipeline/codegen.py)\<close>

datatype bcinstr =
    BLabel string
  | BJmp string
  | BIfFalse string string
  | BMov string string
  | BUnary string string string
  | BBin string string string string
  | BPrint string
  | BRet "string option"
  | BFunc string "string list"
  | BEndFunc string
  | BCall "string option" string "string list"

fun codegen_instr :: "irinstr \<Rightarrow> bcinstr" where
  "codegen_instr (Label name) = BLabel name"
| "codegen_instr (Goto label) = BJmp label"
| "codegen_instr (IfFalse cond label) = BIfFalse cond label"
| "codegen_instr (AssignInstr dst src) = BMov dst src"
| "codegen_instr (UnaryOp dst op operand) = BUnary dst op operand"
| "codegen_instr (BinOp dst op left right) = BBin dst op left right"
| "codegen_instr (PrintInstr v) = BPrint v"
| "codegen_instr (ReturnInstr v) = BRet v"
| "codegen_instr (FuncStart name params) = BFunc name params"
| "codegen_instr (FuncEnd name) = BEndFunc name"
| "codegen_instr (CallInstr dst name args) = BCall dst name args"

definition codegen :: "irinstr list \<Rightarrow> bcinstr list" where
  "codegen ir = map codegen_instr ir"

section \<open>Peephole cleanup (pipeline/peephole.py)\<close>

fun is_mov_self :: "bcinstr \<Rightarrow> bool" where
  "is_mov_self (BMov dst src) = (dst = src)"
| "is_mov_self _ = False"

definition remove_mov_self :: "bcinstr list \<Rightarrow> bcinstr list" where
  "remove_mov_self code = filter (\<lambda>ins. \<not> is_mov_self ins) code"

text \<open>
  \<open>jmp_to_next ins rest\<close> is the test of \<open>remove_jmp_to_next_label\<close> at an index \<open>i\<close>
  with \<open>ins = code[i]\<close> and \<open>rest = code[i+1:]\<close>: a \<open>BJmp\<close> whose next instruction
  exists and is the \<open>BLabel\<close> it names. The index loop visits every instruction once, in
  order, which is the recursion over the list.
\<close>

fun jmp_to_next :: "bcinstr \<Rightarrow> bcinstr list \<Rightarrow> bool" where
  "jmp_to_next (BJmp label) (BLabel name # _) = (name = label)"
| "jmp_to_next _ _ = False"

fun remove_jmp_to_next_label :: "bcinstr list \<Rightarrow> bcinstr list" where
  "remove_jmp_to_next_label [] = []"
| "remove_jmp_to_next_label (ins # rest) =
     (if jmp_to_next ins rest then remove_jmp_to_next_label rest
      else ins # remove_jmp_to_next_label rest)"

text \<open>
  The first loop of \<open>collapse_consecutive_labels\<close>: it returns \<^verbatim>\<open>out\<close> and
  \<^verbatim>\<open>label_map\<close>; \<^verbatim>\<open>prev_label\<close> and the map built so far are its state.
\<close>

fun collapse_scan ::
  "bcinstr list \<Rightarrow> string option \<Rightarrow> (string \<rightharpoonup> string) \<Rightarrow> bcinstr list \<times> (string \<rightharpoonup> string)" where
  "collapse_scan [] prev_label label_map = ([], label_map)"
| "collapse_scan (BLabel name # rest) prev_label label_map =
     (case prev_label of
        None \<Rightarrow> (let (out, m) = collapse_scan rest (Some name) label_map in (BLabel name # out, m))
      | Some p \<Rightarrow> collapse_scan rest prev_label (label_map(name \<mapsto> p)))"
| "collapse_scan (ins # rest) prev_label label_map =
     (let (out, m) = collapse_scan rest None label_map in (ins # out, m))"

text \<open>
  \<^verbatim>\<open>while name in label_map: name = label_map[name]\<close>. The loop does not end on a
  cyclic map (two labels that each follow the other somewhere, or a label that follows
  itself), so \<open>remap\<close> is partial: \<open>None\<close> is "does not return".
\<close>

partial_function (option) remap :: "(string \<rightharpoonup> string) \<Rightarrow> string \<Rightarrow> string option" where
  "remap label_map name =
     (case label_map name of None \<Rightarrow> Some name | Some name' \<Rightarrow> remap label_map name')"

fun remap_instr :: "(string \<rightharpoonup> string) \<Rightarrow> bcinstr \<Rightarrow> bcinstr option" where
  "remap_instr m (BJmp label) = map_option BJmp (remap m label)"
| "remap_instr m (BIfFalse cond label) = map_option (BIfFalse cond) (remap m label)"
| "remap_instr m ins = Some ins"

fun remap_all :: "(string \<rightharpoonup> string) \<Rightarrow> bcinstr list \<Rightarrow> bcinstr list option" where
  "remap_all m [] = Some []"
| "remap_all m (ins # rest) =
     (case remap_instr m ins of
        None \<Rightarrow> None
      | Some ins' \<Rightarrow> map_option ((#) ins') (remap_all m rest))"

definition collapse_consecutive_labels :: "bcinstr list \<Rightarrow> bcinstr list option" where
  "collapse_consecutive_labels code =
     (let (out, label_map) = collapse_scan code None Map.empty in remap_all label_map out)"

definition peephole :: "bcinstr list \<Rightarrow> bcinstr list option" where
  "peephole code =
     collapse_consecutive_labels (remove_jmp_to_next_label (remove_mov_self code))"

text \<open>The properties of a sequence that the three passes look for.\<close>

fun has_jmp_to_next :: "bcinstr list \<Rightarrow> bool" where
  "has_jmp_to_next [] = False"
| "has_jmp_to_next (ins # rest) = (jmp_to_next ins rest \<or> has_jmp_to_next rest)"

fun is_label :: "bcinstr \<Rightarrow> bool" where
  "is_label (BLabel _) = True"
| "is_label _ = False"

fun has_adjacent_labels :: "bcinstr list \<Rightarrow> bool" where
  "has_adjacent_labels (a # b # rest) =
     ((is_label a \<and> is_label b) \<or> has_adjacent_labels (b # rest))"
| "has_adjacent_labels _ = False"

lemma remap_unmapped: "m name = None \<Longrightarrow> remap m name = Some name"
  by (subst remap.simps) simp

lemma remap_mapped: "m name = Some name' \<Longrightarrow> remap m name = remap m name'"
  by (subst remap.simps) simp

subsection \<open>What a pass leaves behind\<close>

lemma remove_mov_self_clean: "\<not> list_ex is_mov_self (remove_mov_self code)"
  by (simp add: remove_mov_self_def list_ex_iff)

lemma set_remove_jmp_to_next_label: "set (remove_jmp_to_next_label code) \<subseteq> set code"
  by (induction code) auto

lemma collapse_scan_other:
  "\<not> is_label ins \<Longrightarrow>
   collapse_scan (ins # rest) prev m =
     (let (out, m') = collapse_scan rest None m in (ins # out, m'))"
  by (cases ins) simp_all

lemma is_label_iff: "is_label ins \<longleftrightarrow> (\<exists>name. ins = BLabel name)"
  by (cases ins) simp_all

lemma set_collapse_scan: "collapse_scan code prev m = (out, m') \<Longrightarrow> set out \<subseteq> set code"
proof (induction code arbitrary: prev m out m')
  case Nil
  then show ?case by simp
next
  case (Cons ins rest)
  show ?case
  proof (cases "is_label ins")
    case True
    then obtain name where ins: "ins = BLabel name" using is_label_iff by blast
    show ?thesis
    proof (cases prev)
      case None
      obtain out1 m1 where r: "collapse_scan rest (Some name) m = (out1, m1)"
        by (cases "collapse_scan rest (Some name) m")
      then have "out = ins # out1" using Cons.prems None ins by simp
      then show ?thesis using Cons.IH [OF r] by auto
    next
      case (Some p)
      then have "collapse_scan rest (Some p) (m(name \<mapsto> p)) = (out, m')"
        using Cons.prems ins by simp
      from Cons.IH [OF this] show ?thesis by auto
    qed
  next
    case False
    obtain out1 m1 where r: "collapse_scan rest None m = (out1, m1)"
      by (cases "collapse_scan rest None m")
    then have "out = ins # out1" using Cons.prems False by (simp add: collapse_scan_other)
    then show ?thesis using Cons.IH [OF r] by auto
  qed
qed

lemma collapse_scan_no_adjacent:
  "collapse_scan code prev m = (out, m') \<Longrightarrow>
     \<not> has_adjacent_labels out \<and> (prev \<noteq> None \<longrightarrow> out = [] \<or> \<not> is_label (hd out))"
proof (induction code arbitrary: prev m out m')
  case Nil
  then show ?case by simp
next
  case (Cons ins rest)
  show ?case
  proof (cases "is_label ins")
    case True
    then obtain name where ins: "ins = BLabel name" using is_label_iff by blast
    show ?thesis
    proof (cases prev)
      case None
      obtain out1 m1 where r: "collapse_scan rest (Some name) m = (out1, m1)"
        by (cases "collapse_scan rest (Some name) m")
      then have out: "out = BLabel name # out1" using Cons.prems None ins by simp
      have "\<not> has_adjacent_labels out1 \<and> (out1 = [] \<or> \<not> is_label (hd out1))"
        using Cons.IH [OF r] by simp
      then show ?thesis using out None by (cases out1) auto
    next
      case (Some p)
      then have "collapse_scan rest (Some p) (m(name \<mapsto> p)) = (out, m')"
        using Cons.prems ins by simp
      from Cons.IH [OF this] show ?thesis using Some by simp
    qed
  next
    case False
    obtain out1 m1 where r: "collapse_scan rest None m = (out1, m1)"
      by (cases "collapse_scan rest None m")
    then have out: "out = ins # out1" using Cons.prems False by (simp add: collapse_scan_other)
    have "\<not> has_adjacent_labels out1" using Cons.IH [OF r] by simp
    then show ?thesis using out False by (cases out1) auto
  qed
qed

lemma remap_instr_shape:
  "remap_instr m ins = Some ins' \<Longrightarrow>
     is_label ins' = is_label ins \<and> is_mov_self ins' = is_mov_self ins"
  by (cases ins) auto

lemma remap_all_Cons:
  "remap_all m (ins # rest) = Some r \<Longrightarrow>
     \<exists>ins' rest'. r = ins' # rest' \<and> remap_instr m ins = Some ins' \<and> remap_all m rest = Some rest'"
  by (auto split: option.splits)

lemma remap_all_mov_self:
  "remap_all m out = Some r \<Longrightarrow> list_ex is_mov_self r = list_ex is_mov_self out"
proof (induction out arbitrary: r)
  case Nil
  then show ?case by simp
next
  case (Cons ins rest)
  from Cons.prems obtain ins' rest' where r: "r = ins' # rest'"
    and i: "remap_instr m ins = Some ins'" and rest: "remap_all m rest = Some rest'"
    using remap_all_Cons by blast
  show ?case using r remap_instr_shape [OF i] Cons.IH [OF rest] by simp
qed

lemma remap_all_adjacent:
  "remap_all m out = Some r \<Longrightarrow> has_adjacent_labels r = has_adjacent_labels out"
proof (induction out arbitrary: r rule: has_adjacent_labels.induct)
  case (1 a b rest)
  from "1.prems" obtain a' r1 where r: "r = a' # r1" and a: "remap_instr m a = Some a'"
    and r1: "remap_all m (b # rest) = Some r1"
    using remap_all_Cons by blast
  from r1 obtain b' r2 where r1': "r1 = b' # r2" and b: "remap_instr m b = Some b'"
    using remap_all_Cons by blast
  have "has_adjacent_labels r1 = has_adjacent_labels (b # rest)" using "1.IH" r1 by simp
  then show ?case using r r1' remap_instr_shape [OF a] remap_instr_shape [OF b] by simp
next
  case "2_1"
  then show ?case by simp
next
  case "2_2"
  from "2_2.prems" obtain v' r1 where "r = v' # r1" and "remap_all m [] = Some r1"
    using remap_all_Cons by blast
  then show ?case by simp
qed

subsection \<open>A clean sequence is a fixed point\<close>

lemma remove_mov_self_id: "\<not> list_ex is_mov_self code \<Longrightarrow> remove_mov_self code = code"
  by (simp add: remove_mov_self_def list_ex_iff)

lemma remove_jmp_to_next_label_id:
  "\<not> has_jmp_to_next code \<Longrightarrow> remove_jmp_to_next_label code = code"
  by (induction code) auto

lemma collapse_scan_id:
  "\<not> has_adjacent_labels code \<Longrightarrow> (prev \<noteq> None \<longrightarrow> code = [] \<or> \<not> is_label (hd code)) \<Longrightarrow>
     collapse_scan code prev m = (code, m)"
proof (induction code arbitrary: prev)
  case Nil
  then show ?case by simp
next
  case (Cons ins rest)
  have rest: "\<not> has_adjacent_labels rest" using Cons.prems(1) by (cases rest) auto
  show ?case
  proof (cases "is_label ins")
    case True
    then obtain name where ins: "ins = BLabel name" using is_label_iff by blast
    have prev: "prev = None" using Cons.prems(2) True by auto
    have "rest = [] \<or> \<not> is_label (hd rest)" using Cons.prems(1) True by (cases rest) auto
    then have "collapse_scan rest (Some name) m = (rest, m)" using Cons.IH rest by simp
    then show ?thesis using ins prev by simp
  next
    case False
    have "collapse_scan rest None m = (rest, m)" using Cons.IH rest by simp
    then show ?thesis using False by (simp add: collapse_scan_other)
  qed
qed

lemma remap_instr_empty: "remap_instr Map.empty ins = Some ins"
  by (cases ins) (simp_all add: remap_unmapped)

lemma remap_all_empty: "remap_all Map.empty code = Some code"
  by (induction code) (simp_all add: remap_instr_empty)

lemma peephole_clean:
  assumes "peephole code = Some d"
  shows "\<not> list_ex is_mov_self d \<and> \<not> has_adjacent_labels d"
proof -
  let ?c = "remove_jmp_to_next_label (remove_mov_self code)"
  obtain out m where scan: "collapse_scan ?c None Map.empty = (out, m)"
    by (cases "collapse_scan ?c None Map.empty")
  then have d: "remap_all m out = Some d"
    using assms by (simp add: peephole_def collapse_consecutive_labels_def)
  have "set out \<subseteq> set (remove_mov_self code)"
    using set_collapse_scan [OF scan] set_remove_jmp_to_next_label by blast
  then have "\<not> list_ex is_mov_self out"
    using remove_mov_self_clean [of code] by (auto simp: list_ex_iff)
  moreover have "\<not> has_adjacent_labels out" using collapse_scan_no_adjacent [OF scan] by simp
  ultimately show ?thesis using remap_all_mov_self [OF d] remap_all_adjacent [OF d] by simp
qed

lemma peephole_fixed:
  assumes "\<not> list_ex is_mov_self d" "\<not> has_adjacent_labels d" "\<not> has_jmp_to_next d"
  shows "peephole d = Some d"
  using assms
  by (simp add: peephole_def collapse_consecutive_labels_def remove_mov_self_id
      remove_jmp_to_next_label_id collapse_scan_id remap_all_empty)

lemma length_remove_jmp_to_next_label:
  "length (remove_jmp_to_next_label code) \<le> length code \<and>
   (has_jmp_to_next code \<longrightarrow> length (remove_jmp_to_next_label code) < length code)"
  by (induction code) auto

lemma length_collapse_scan: "collapse_scan code prev m = (out, m') \<Longrightarrow> length out \<le> length code"
proof (induction code arbitrary: prev m out m')
  case Nil
  then show ?case by simp
next
  case (Cons ins rest)
  show ?case
  proof (cases "is_label ins")
    case True
    then obtain name where ins: "ins = BLabel name" using is_label_iff by blast
    show ?thesis
    proof (cases prev)
      case None
      obtain out1 m1 where r: "collapse_scan rest (Some name) m = (out1, m1)"
        by (cases "collapse_scan rest (Some name) m")
      then have "out = ins # out1" using Cons.prems None ins by simp
      then show ?thesis using Cons.IH [OF r] by simp
    next
      case (Some p)
      then have "collapse_scan rest (Some p) (m(name \<mapsto> p)) = (out, m')"
        using Cons.prems ins by simp
      from Cons.IH [OF this] show ?thesis by simp
    qed
  next
    case False
    obtain out1 m1 where r: "collapse_scan rest None m = (out1, m1)"
      by (cases "collapse_scan rest None m")
    then have "out = ins # out1" using Cons.prems False by (simp add: collapse_scan_other)
    then show ?thesis using Cons.IH [OF r] by simp
  qed
qed

lemma length_remap_all: "remap_all m out = Some r \<Longrightarrow> length r = length out"
proof (induction out arbitrary: r)
  case Nil
  then show ?case by simp
next
  case (Cons ins rest)
  from Cons.prems obtain ins' rest' where "r = ins' # rest'" and "remap_all m rest = Some rest'"
    using remap_all_Cons by blast
  then show ?case using Cons.IH by simp
qed

lemma peephole_length:
  assumes "peephole code = Some d"
  shows "length d \<le> length code \<and> (has_jmp_to_next (remove_mov_self code) \<longrightarrow> length d < length code)"
proof -
  let ?c = "remove_jmp_to_next_label (remove_mov_self code)"
  obtain out m where scan: "collapse_scan ?c None Map.empty = (out, m)"
    by (cases "collapse_scan ?c None Map.empty")
  then have d: "remap_all m out = Some d"
    using assms by (simp add: peephole_def collapse_consecutive_labels_def)
  have 1: "length d = length out" using length_remap_all [OF d] .
  have 2: "length out \<le> length ?c" using length_collapse_scan [OF scan] .
  have 3: "length (remove_mov_self code) \<le> length code" by (simp add: remove_mov_self_def)
  show ?thesis
    using 1 2 3 length_remove_jmp_to_next_label [of "remove_mov_self code"] by auto
qed
subsection \<open>Idempotence\<close>

text \<open>
  Claim C3: for every bytecode sequence \<open>c\<close>, \<open>peephole (peephole c) = peephole c\<close>.

  It fails. On \<^verbatim>\<open>JMP B; A:; B:\<close> the jump is not to the next label, so pass 2 keeps it;
  pass 3 drops \<open>B\<close> and renames the jump to \<open>A\<close>, which is now the next label. A second
  run removes the jump.
\<close>

theorem peephole_twice_differs:
  "peephole [BJmp ''B'', BLabel ''A'', BLabel ''B''] = Some [BJmp ''A'', BLabel ''A''] \<and>
   Option.bind (peephole [BJmp ''B'', BLabel ''A'', BLabel ''B'']) peephole = Some [BLabel ''A'']"
  by (simp add: peephole_def remove_mov_self_def collapse_consecutive_labels_def
      remap_unmapped remap_mapped)

text \<open>
  Claim C3, amended: when \<open>peephole\<close> returns \<open>d\<close> on \<open>c\<close>, its result holds no self-move
  and no two adjacent labels, and a second run returns \<open>d\<close> again exactly when \<open>d\<close> holds
  no \<open>JMP\<close> immediately followed by the label it names.
\<close>

theorem peephole_idempotent_iff:
  assumes "peephole code = Some d"
  shows "\<not> list_ex is_mov_self d \<and> \<not> has_adjacent_labels d \<and>
         (peephole d = Some d \<longleftrightarrow> \<not> has_jmp_to_next d)"
proof -
  have clean: "\<not> list_ex is_mov_self d \<and> \<not> has_adjacent_labels d"
    using peephole_clean [OF assms] .
  have "peephole d = Some d" if "\<not> has_jmp_to_next d"
    using clean that by (simp add: peephole_fixed)
  moreover have "peephole d \<noteq> Some d" if j: "has_jmp_to_next d"
  proof
    assume "peephole d = Some d"
    then have "has_jmp_to_next (remove_mov_self d) \<longrightarrow> length d < length d"
      using peephole_length by blast
    then show False using j clean by (simp add: remove_mov_self_id)
  qed
  ultimately show ?thesis using clean by blast
qed

theorem peephole_idempotent_iff_witness:
  "peephole [BMov ''x'' ''x'', BJmp ''A'', BLabel ''A'', BLabel ''B'', BJmp ''B'']
     = Some [BLabel ''A'', BJmp ''A''] \<and>
   \<not> has_jmp_to_next [BLabel ''A'', BJmp ''A''] \<and>
   peephole [BLabel ''A'', BJmp ''A''] = Some [BLabel ''A'', BJmp ''A'']"
proof -
  have h: "peephole [BMov ''x'' ''x'', BJmp ''A'', BLabel ''A'', BLabel ''B'', BJmp ''B'']
     = Some [BLabel ''A'', BJmp ''A'']"
    by (simp add: peephole_def remove_mov_self_def collapse_consecutive_labels_def
        remap_unmapped remap_mapped)
  have n: "\<not> has_jmp_to_next [BLabel ''A'', BJmp ''A'']" by simp
  show ?thesis using h n peephole_idempotent_iff [OF h] by blast
qed

section \<open>Virtual machine (pipeline/vm.py)\<close>

text \<open>
  Every value of the VM is a Python \<^verbatim>\<open>float\<close>. Floating-point arithmetic is not code of
  the repository and has no exact counterpart in HOL, so the VM is modelled over any type
  \<open>'v\<close> of values with the operations the source applies to floats, given as a record:
  \<open>parse_float\<close> is \<^verbatim>\<open>float(x)\<close> (\<open>None\<close> where it raises), \<open>to_int\<close> is \<^verbatim>\<open>int(v)\<close>
  (which raises on an infinity or a NaN), \<open>f_div\<close> is division by a non-zero divisor.
\<close>

datatype vm_error = ZeroDivisionError | OverflowError | ValueError | RuntimeError string

record 'v float_ops =
  parse_float :: "string \<Rightarrow> 'v option"
  float_of_int :: "int \<Rightarrow> 'v"
  to_int :: "'v \<Rightarrow> vm_error + int"
  f_eq :: "'v \<Rightarrow> 'v \<Rightarrow> bool"
  f_lt :: "'v \<Rightarrow> 'v \<Rightarrow> bool"
  f_le :: "'v \<Rightarrow> 'v \<Rightarrow> bool"
  f_add :: "'v \<Rightarrow> 'v \<Rightarrow> 'v"
  f_sub :: "'v \<Rightarrow> 'v \<Rightarrow> 'v"
  f_mul :: "'v \<Rightarrow> 'v \<Rightarrow> 'v"
  f_div :: "'v \<Rightarrow> 'v \<Rightarrow> 'v"
  f_neg :: "'v \<Rightarrow> 'v"
  f_is_integer :: "'v \<Rightarrow> bool"
  f_str :: "'v \<Rightarrow> string"

text \<open>
  Environments are dictionaries, and \<^verbatim>\<open>self.env = self.global_env\<close> makes the current
  environment the same object as the global one until a call replaces it by a fresh
  dictionary. \<open>Global\<close> is a reference to the global dictionary, \<open>Local e\<close> a dictionary
  of a call; a frame saves the reference it was given.
\<close>

datatype 'v env_ref = Global | Local "string \<rightharpoonup> 'v"

record 'v frame =
  frame_env :: "'v env_ref"
  ret_pc :: nat
  ret_dst :: "string option"

record func_info =
  m_start :: nat
  m_end :: nat
  m_params :: "string list"

text \<open>
  The state of a \<open>VM\<close> object. \<^verbatim>\<open>self.n\<close> is \<open>length (vm_code s)\<close>; the call stack has
  its top at the head of the list.
\<close>

record 'v vm =
  vm_code :: "bcinstr list"
  labels :: "string \<rightharpoonup> nat"
  func_meta :: "string \<rightharpoonup> func_info"
  pc :: nat
  stack :: "'v frame list"
  global_env :: "string \<rightharpoonup> 'v"
  env :: "'v env_ref"
  vm_output :: "string list"

text \<open>
  \<open>_index\<close>: one scan with the label map, the function table and the stack of open
  function names (top at the head). An \<open>ENDFUNC\<close> closes the function on top of that
  stack, whose entry exists since the \<open>FUNC\<close> that pushed it.
\<close>

fun index_loop ::
  "(nat \<times> bcinstr) list \<Rightarrow> (string \<rightharpoonup> nat) \<Rightarrow> (string \<rightharpoonup> func_info) \<Rightarrow> string list \<Rightarrow>
     (string \<rightharpoonup> nat) \<times> (string \<rightharpoonup> func_info)" where
  "index_loop [] ls fm func_stack = (ls, fm)"
| "index_loop ((i, BLabel name) # rest) ls fm func_stack =
     index_loop rest (ls(name \<mapsto> i)) fm func_stack"
| "index_loop ((i, BFunc name params) # rest) ls fm func_stack =
     index_loop rest ls (fm(name \<mapsto> \<lparr>m_start = i, m_end = i, m_params = params\<rparr>))
       (name # func_stack)"
| "index_loop ((i, BEndFunc _) # rest) ls fm func_stack =
     (case func_stack of
        [] \<Rightarrow> index_loop rest ls fm func_stack
      | name # func_stack' \<Rightarrow>
          index_loop rest ls
            (case fm name of Some info \<Rightarrow> fm(name \<mapsto> info\<lparr>m_end := i\<rparr>) | None \<Rightarrow> fm)
            func_stack')"
| "index_loop (_ # rest) ls fm func_stack = index_loop rest ls fm func_stack"

definition init_vm :: "bcinstr list \<Rightarrow> 'v vm" where
  "init_vm c =
     (let (ls, fm) = index_loop (enumerate 0 c) Map.empty Map.empty []
      in \<lparr>vm_code = c, labels = ls, func_meta = fm, pc = 0, stack = [],
          global_env = Map.empty, env = Global, vm_output = []\<rparr>)"

definition is_true :: "'v float_ops \<Rightarrow> 'v \<Rightarrow> bool" where
  "is_true ops v = (\<not> f_eq ops v (float_of_int ops 0))"

definition fmt :: "'v float_ops \<Rightarrow> 'v \<Rightarrow> vm_error + string" where
  "fmt ops v =
     (if f_is_integer ops v
      then (case to_int ops v of Inl e \<Rightarrow> Inl e | Inr i \<Rightarrow> Inr (str_int i))
      else Inr (f_str ops v))"

definition lookup_global :: "'v float_ops \<Rightarrow> 'v vm \<Rightarrow> string \<Rightarrow> 'v" where
  "lookup_global ops s x = (case global_env s x of Some v \<Rightarrow> v | None \<Rightarrow> float_of_int ops 0)"

definition get :: "'v float_ops \<Rightarrow> 'v vm \<Rightarrow> string \<Rightarrow> 'v" where
  "get ops s x =
     (case parse_float ops x of
        Some v \<Rightarrow> v
      | None \<Rightarrow>
          (case env s of
             Global \<Rightarrow> lookup_global ops s x
           | Local e \<Rightarrow> (case e x of Some v \<Rightarrow> v | None \<Rightarrow> lookup_global ops s x)))"

definition set_var :: "string \<Rightarrow> 'v \<Rightarrow> 'v vm \<Rightarrow> 'v vm" where
  "set_var name val s =
     (case env s of
        Global \<Rightarrow> s\<lparr>global_env := (global_env s)(name \<mapsto> val)\<rparr>
      | Local e \<Rightarrow> s\<lparr>env := Local (e(name \<mapsto> val))\<rparr>)"

definition unary_value :: "'v float_ops \<Rightarrow> string \<Rightarrow> 'v \<Rightarrow> vm_error + 'v" where
  "unary_value ops op a =
     (if op = ''!'' then Inr (if is_true ops a then float_of_int ops 0 else float_of_int ops 1)
      else if op = ''+'' then Inr a
      else if op = ''-'' then Inr (f_neg ops a)
      else Inl (RuntimeError (''Unknown unary op '' @ op)))"

definition truth :: "'v float_ops \<Rightarrow> bool \<Rightarrow> 'v" where
  "truth ops b = (if b then float_of_int ops 1 else float_of_int ops 0)"

definition bin_value :: "'v float_ops \<Rightarrow> string \<Rightarrow> 'v \<Rightarrow> 'v \<Rightarrow> vm_error + 'v" where
  "bin_value ops op a b =
     (if op = ''+'' then Inr (f_add ops a b)
      else if op = ''-'' then Inr (f_sub ops a b)
      else if op = ''*'' then Inr (f_mul ops a b)
      else if op = ''/'' then
        (if f_eq ops b (float_of_int ops 0) then Inl ZeroDivisionError else Inr (f_div ops a b))
      else if op = ''%'' then
        (case to_int ops a of
           Inl e \<Rightarrow> Inl e
         | Inr i \<Rightarrow>
             (case to_int ops b of
                Inl e \<Rightarrow> Inl e
              | Inr j \<Rightarrow> if j = 0 then Inl ZeroDivisionError else Inr (float_of_int ops (i mod j))))
      else if op = ''<'' then Inr (truth ops (f_lt ops a b))
      else if op = ''<='' then Inr (truth ops (f_le ops a b))
      else if op = ''>'' then Inr (truth ops (f_lt ops b a))
      else if op = ''>='' then Inr (truth ops (f_le ops b a))
      else if op = ''=='' then Inr (truth ops (f_eq ops a b))
      else if op = ''!='' then Inr (truth ops (\<not> f_eq ops a b))
      else if op = ''&&'' then Inr (truth ops (is_true ops a \<and> is_true ops b))
      else if op = ''||'' then Inr (truth ops (is_true ops a \<or> is_true ops b))
      else Inl (RuntimeError (''Unknown bin op '' @ op)))"

text \<open>
  The loop of \<open>CALL\<close> over \<^verbatim>\<open>enumerate(params)\<close>: parameter \<open>i\<close> gets
  \<^verbatim>\<open>arg_vals[i] if i < len(arg_vals) else 0.0\<close>.
\<close>

fun bind_params ::
  "'v float_ops \<Rightarrow> string list \<Rightarrow> 'v list \<Rightarrow> nat \<Rightarrow> (string \<rightharpoonup> 'v) \<Rightarrow> (string \<rightharpoonup> 'v)" where
  "bind_params ops [] arg_vals i e = e"
| "bind_params ops (p # ps) arg_vals i e =
     bind_params ops ps arg_vals (i + 1)
       (e(p \<mapsto> (if i < length arg_vals then arg_vals ! i else float_of_int ops 0)))"

text \<open>
  Leaving a call (\<open>RET\<close>, and \<open>ENDFUNC\<close> with the value \<open>0\<close>): the frame's environment
  becomes the current one, the value is written to the frame's destination if it has one,
  and the pc is the frame's.
\<close>

definition return_to :: "'v frame \<Rightarrow> 'v frame list \<Rightarrow> 'v \<Rightarrow> 'v vm \<Rightarrow> 'v vm" where
  "return_to fr rest val s =
     (let s1 = s\<lparr>stack := rest, env := frame_env fr\<rparr>;
          s2 = (case ret_dst fr of Some d \<Rightarrow> set_var d val s1 | None \<Rightarrow> s1)
      in s2\<lparr>pc := ret_pc fr\<rparr>)"

text \<open>
  \<open>exec\<close> is the body of \<open>step\<close> after the fetch, on the state whose pc is already
  incremented. The result is the returned flag and the new state, or the exception raised.
\<close>

fun exec :: "'v float_ops \<Rightarrow> bcinstr \<Rightarrow> 'v vm \<Rightarrow> vm_error + (bool \<times> 'v vm)" where
  "exec ops (BFunc name params) s =
     (if stack s = []
      then (let e = (case func_meta s name of Some info \<Rightarrow> m_end info | None \<Rightarrow> pc s - 1)
            in Inr (True, s\<lparr>pc := e + 1\<rparr>))
      else Inr (True, s))"
| "exec ops (BEndFunc name) s =
     (case stack s of
        [] \<Rightarrow> Inr (True, s)
      | fr # rest \<Rightarrow> Inr (True, return_to fr rest (float_of_int ops 0) s))"
| "exec ops (BLabel name) s = Inr (True, s)"
| "exec ops (BJmp label) s =
     Inr (True, s\<lparr>pc := (case labels s label of Some i \<Rightarrow> i | None \<Rightarrow> pc s)\<rparr>)"
| "exec ops (BIfFalse cond label) s =
     (if \<not> is_true ops (get ops s cond)
      then Inr (True, s\<lparr>pc := (case labels s label of Some i \<Rightarrow> i | None \<Rightarrow> pc s)\<rparr>)
      else Inr (True, s))"
| "exec ops (BMov dst src) s = Inr (True, set_var dst (get ops s src) s)"
| "exec ops (BUnary dst op src) s =
     (case unary_value ops op (get ops s src) of
        Inl e \<Rightarrow> Inl e
      | Inr v \<Rightarrow> Inr (True, set_var dst v s))"
| "exec ops (BBin dst op left right) s =
     (case bin_value ops op (get ops s left) (get ops s right) of
        Inl e \<Rightarrow> Inl e
      | Inr v \<Rightarrow> Inr (True, set_var dst v s))"
| "exec ops (BPrint v) s =
     (case fmt ops (get ops s v) of
        Inl e \<Rightarrow> Inl e
      | Inr line \<Rightarrow> Inr (True, s\<lparr>vm_output := vm_output s @ [line]\<rparr>))"
| "exec ops (BCall dst name args) s =
     (case func_meta s name of
        None \<Rightarrow> Inr (True, s)
      | Some meta \<Rightarrow>
          (let params = m_params meta;
               arg_vals = map (get ops s) args;
               fr = \<lparr>frame_env = env s, ret_pc = pc s, ret_dst = dst\<rparr>
           in Inr (True, s\<lparr>stack := fr # stack s,
                            env := Local (bind_params ops params arg_vals 0 Map.empty),
                            pc := m_start meta + 1\<rparr>)))"
| "exec ops (BRet v) s =
     (case stack s of
        [] \<Rightarrow> Inr (False, s\<lparr>pc := length (vm_code s)\<rparr>)
      | fr # rest \<Rightarrow>
          (let ret_val = (case v of Some x \<Rightarrow> get ops s x | None \<Rightarrow> float_of_int ops 0)
           in Inr (True, return_to fr rest ret_val s)))"

definition step :: "'v float_ops \<Rightarrow> 'v vm \<Rightarrow> vm_error + (bool \<times> 'v vm)" where
  "step ops s =
     (if pc s \<ge> length (vm_code s) then Inr (False, s)
      else exec ops (vm_code s ! pc s) (s\<lparr>pc := pc s + 1\<rparr>))"

text \<open>
  \<^verbatim>\<open>while self.step(): pass\<close> may run forever; \<open>None\<close> is "does not return". The
  result is the list of output lines (the source joins them with newlines), or the
  exception raised.
\<close>

partial_function (option) run_loop :: "'v float_ops \<Rightarrow> 'v vm \<Rightarrow> (vm_error + string list) option" where
  "run_loop ops s =
     (case step ops s of
        Inl e \<Rightarrow> Some (Inl e)
      | Inr (again, s') \<Rightarrow> if again then run_loop ops s' else Some (Inr (vm_output s')))"

definition run :: "'v float_ops \<Rightarrow> bcinstr list \<Rightarrow> (vm_error + string list) option" where
  "run ops bytecode = run_loop ops (init_vm bytecode)"

subsection \<open>An instance of the operations\<close>

text \<open>
  The theorems about the VM hold for every record of operations. To evaluate them at
  concrete states, \<open>exact_ops\<close> computes with exact rationals: it agrees with Python's
  doubles wherever the double operation is exact, as on the small integers used below. It
  reads an operand as a number when it is a non-empty string of decimal digits (Python's
  \<^verbatim>\<open>float\<close> accepts more; the operands below are digit strings or plain names). Its
  rendering of a non-integer is not Python's; nothing below prints one.
\<close>

definition digit_val :: "char \<Rightarrow> nat" where
  "digit_val c = length (takeWhile (\<lambda>d. d \<noteq> c) ''0123456789'')"

definition parse_digits :: "string \<Rightarrow> rat option" where
  "parse_digits x =
     (if x \<noteq> [] \<and> list_all is_digit x
      then Some (of_nat (foldl (\<lambda>n c. 10 * n + digit_val c) 0 x))
      else None)"

definition trunc :: "rat \<Rightarrow> int" where
  "trunc q = (if 0 \<le> q then \<lfloor>q\<rfloor> else \<lceil>q\<rceil>)"

definition exact_ops :: "rat float_ops" where
  "exact_ops =
     \<lparr>parse_float = parse_digits,
      float_of_int = of_int,
      to_int = (\<lambda>q. Inr (trunc q)),
      f_eq = (=),
      f_lt = (<),
      f_le = (\<le>),
      f_add = (+),
      f_sub = (-),
      f_mul = (*),
      f_div = (/),
      f_neg = uminus,
      f_is_integer = (\<lambda>q. of_int \<lfloor>q\<rfloor> = q),
      f_str = (\<lambda>q. str_int (fst (quotient_of q)) @ ''/'' @ str_int (snd (quotient_of q)))\<rparr>"


subsection \<open>Steps that do not raise\<close>

text \<open>The dictionary a reference denotes in a state.\<close>

definition env_dict :: "'v vm \<Rightarrow> 'v env_ref \<Rightarrow> (string \<rightharpoonup> 'v)" where
  "env_dict s r = (case r of Global \<Rightarrow> global_env s | Local e \<Rightarrow> e)"

definition unary_ops :: "string set" where
  "unary_ops = {''!'', ''+'', ''-''}"

definition bin_ops :: "string set" where
  "bin_ops = {''+'', ''-'', ''*'', ''/'', ''%'', ''<'', ''<='', ''>'', ''>='', ''=='', ''!='',
              ''&&'', ''||''}"

lemma step_fetch:
  "pc s < length (vm_code s) \<Longrightarrow> step ops s = exec ops (vm_code s ! pc s) (s\<lparr>pc := pc s + 1\<rparr>)"
  by (simp add: step_def)

lemma get_absent:
  "parse_float ops x = None \<Longrightarrow> env_dict s (env s) x = None \<Longrightarrow> global_env s x = None \<Longrightarrow>
     get ops s x = float_of_int ops 0"
  by (cases "env s") (simp_all add: get_def env_dict_def lookup_global_def)

lemma unary_value_known:
  assumes "op \<in> unary_ops"
  shows "\<exists>v. unary_value ops op a = Inr v"
proof -
  from assms have "op = ''!'' \<or> op = ''+'' \<or> op = ''-''" by (simp add: unary_ops_def)
  then show ?thesis by (elim disjE) (simp_all add: unary_value_def)
qed

lemma unary_value_unknown:
  "op \<notin> unary_ops \<Longrightarrow> unary_value ops op a = Inl (RuntimeError (''Unknown unary op '' @ op))"
  by (simp add: unary_ops_def unary_value_def)

lemma bin_value_unknown:
  "op \<notin> bin_ops \<Longrightarrow> bin_value ops op a b = Inl (RuntimeError (''Unknown bin op '' @ op))"
  by (simp add: bin_ops_def bin_value_def)

lemma bin_value_known:
  assumes "op \<in> bin_ops"
    and "op = ''/'' \<longrightarrow> \<not> f_eq ops b (float_of_int ops 0)"
    and "op = ''%'' \<longrightarrow> (\<exists>i j. to_int ops a = Inr i \<and> to_int ops b = Inr j \<and> j \<noteq> 0)"
  shows "\<exists>v. bin_value ops op a b = Inr v"
proof -
  from assms(1) have
    "op = ''+'' \<or> op = ''-'' \<or> op = ''*'' \<or> op = ''/'' \<or> op = ''%'' \<or> op = ''<'' \<or> op = ''<=''
      \<or> op = ''>'' \<or> op = ''>='' \<or> op = ''=='' \<or> op = ''!='' \<or> op = ''&&'' \<or> op = ''||''"
    by (simp add: bin_ops_def)
  then show ?thesis
  proof (elim disjE)
    assume "op = ''/''"
    then show ?thesis using assms(2) by (simp add: bin_value_def)
  next
    assume op: "op = ''%''"
    then obtain i j where "to_int ops a = Inr i" "to_int ops b = Inr j" "j \<noteq> 0"
      using assms(3) by blast
    then show ?thesis using op by (simp add: bin_value_def)
  qed (simp_all add: bin_value_def)
qed

text \<open>
  Claim C2: executing the VM never surfaces a runtime error: a jump to an unknown label
  leaves the pc unchanged, a call of an unknown function is a no-op, an operand that is
  not a number and is in neither environment reads as \<open>0\<close>, and every \<open>BIN\<close> and \<open>UNARY\<close>
  (also \<open>/\<close> and \<open>%\<close> by zero) produces a value and execution continues.

  It fails: an operator the VM does not know raises \<^verbatim>\<open>RuntimeError\<close>, and \<open>1 / 0\<close>
  raises \<^verbatim>\<open>ZeroDivisionError\<close>; \<open>run\<close> lets both escape.
\<close>

theorem run_raises:
  "run exact_ops [BBin ''x'' ''^'' ''1'' ''2''] = Some (Inl (RuntimeError ''Unknown bin op ^'')) \<and>
   run exact_ops [BBin ''x'' ''/'' ''1'' ''0''] = Some (Inl ZeroDivisionError)"
proof -
  have a: "step exact_ops (init_vm [BBin ''x'' ''^'' ''1'' ''2''])
             = Inl (RuntimeError ''Unknown bin op ^'')"
    by (simp add: step_def init_vm_def get_def bin_value_def exact_ops_def parse_digits_def
        is_digit_def digit_val_def)
  have b: "step exact_ops (init_vm [BBin ''x'' ''/'' ''1'' ''0'']) = Inl ZeroDivisionError"
    by (simp add: step_def init_vm_def get_def bin_value_def exact_ops_def parse_digits_def
        is_digit_def digit_val_def)
  have "run exact_ops [BBin ''x'' ''^'' ''1'' ''2''] = Some (Inl (RuntimeError ''Unknown bin op ^''))"
    unfolding run_def by (subst run_loop.simps) (simp add: a)
  moreover have "run exact_ops [BBin ''x'' ''/'' ''1'' ''0''] = Some (Inl ZeroDivisionError)"
    unfolding run_def by (subst run_loop.simps) (simp add: b)
  ultimately show ?thesis by simp
qed

text \<open>
  Claim C2, amended: a step at a \<open>JMP\<close> or \<open>IFFALSE\<close> whose label is unknown, or at a
  \<open>CALL\<close> of an unknown function, only advances the pc to the next instruction; an
  operand that \<^verbatim>\<open>float\<close> rejects and that is in neither the current nor the global
  environment reads as \<open>0\<close>; a \<open>UNARY\<close> with one of \<open>! + -\<close> and a \<open>BIN\<close> with one of the
  thirteen known operators store a value and continue, where for \<open>/\<close> the divisor is not
  zero and for \<open>%\<close> both operands convert to integers and the divisor's integer is not
  zero; a \<open>BIN\<close> or \<open>UNARY\<close> with any other operator raises \<^verbatim>\<open>RuntimeError\<close>.
\<close>

theorem step_defensive:
  assumes "pc s < length (vm_code s)"
  shows
    "(vm_code s ! pc s = BJmp l \<and> labels s l = None \<longrightarrow>
        step ops s = Inr (True, s\<lparr>pc := pc s + 1\<rparr>)) \<and>
     (vm_code s ! pc s = BIfFalse c l \<and> labels s l = None \<longrightarrow>
        step ops s = Inr (True, s\<lparr>pc := pc s + 1\<rparr>)) \<and>
     (vm_code s ! pc s = BCall dst f args \<and> func_meta s f = None \<longrightarrow>
        step ops s = Inr (True, s\<lparr>pc := pc s + 1\<rparr>)) \<and>
     (parse_float ops x = None \<and> env_dict s (env s) x = None \<and> global_env s x = None \<longrightarrow>
        get ops s x = float_of_int ops 0) \<and>
     (vm_code s ! pc s = BUnary d uop x \<and> uop \<in> unary_ops \<longrightarrow>
        (\<exists>v. step ops s = Inr (True, set_var d v (s\<lparr>pc := pc s + 1\<rparr>)))) \<and>
     (vm_code s ! pc s = BUnary d uop x \<and> uop \<notin> unary_ops \<longrightarrow>
        step ops s = Inl (RuntimeError (''Unknown unary op '' @ uop))) \<and>
     (vm_code s ! pc s = BBin d bop a b \<and> bop \<in> bin_ops \<and>
      (bop = ''/'' \<longrightarrow> \<not> f_eq ops (get ops s b) (float_of_int ops 0)) \<and>
      (bop = ''%'' \<longrightarrow> (\<exists>i j. to_int ops (get ops s a) = Inr i \<and> to_int ops (get ops s b) = Inr j
                              \<and> j \<noteq> 0)) \<longrightarrow>
        (\<exists>v. step ops s = Inr (True, set_var d v (s\<lparr>pc := pc s + 1\<rparr>)))) \<and>
     (vm_code s ! pc s = BBin d bop a b \<and> bop \<notin> bin_ops \<longrightarrow>
        step ops s = Inl (RuntimeError (''Unknown bin op '' @ bop)))"
proof -
  let ?s = "s\<lparr>pc := pc s + 1\<rparr>"
  have get_eq: "get ops (s\<lparr>pc := n\<rparr>) y = get ops s y" for y n
    by (simp add: get_def lookup_global_def split: option.splits env_ref.splits)
  have 1: "step ops s = Inr (True, ?s)" if "vm_code s ! pc s = BJmp l" "labels s l = None"
    using that assms by (simp add: step_fetch)
  have 2: "step ops s = Inr (True, ?s)" if "vm_code s ! pc s = BIfFalse c l" "labels s l = None"
    using that assms by (simp add: step_fetch)
  have 3: "step ops s = Inr (True, ?s)" if "vm_code s ! pc s = BCall dst f args" "func_meta s f = None"
    using that assms by (simp add: step_fetch)
  have 4: "get ops s x = float_of_int ops 0"
    if "parse_float ops x = None" "env_dict s (env s) x = None" "global_env s x = None"
    using that by (rule get_absent)
  have 5: "\<exists>v. step ops s = Inr (True, set_var d v ?s)"
    if i: "vm_code s ! pc s = BUnary d uop x" and u: "uop \<in> unary_ops"
  proof -
    obtain v where "unary_value ops uop (get ops s x) = Inr v"
      using unary_value_known [OF u, of ops "get ops s x"] by blast
    then have "step ops s = Inr (True, set_var d v ?s)"
      using i assms by (simp add: step_fetch get_eq)
    then show ?thesis by blast
  qed
  have 6: "step ops s = Inl (RuntimeError (''Unknown unary op '' @ uop))"
    if "vm_code s ! pc s = BUnary d uop x" "uop \<notin> unary_ops"
    using that assms by (simp add: step_fetch unary_value_unknown)
  have 7: "\<exists>v. step ops s = Inr (True, set_var d v ?s)"
    if i: "vm_code s ! pc s = BBin d bop a b" and k: "bop \<in> bin_ops"
      and z: "bop = ''/'' \<longrightarrow> \<not> f_eq ops (get ops s b) (float_of_int ops 0)"
      and m: "bop = ''%'' \<longrightarrow> (\<exists>i j. to_int ops (get ops s a) = Inr i \<and> to_int ops (get ops s b) = Inr j
                              \<and> j \<noteq> 0)"
  proof -
    obtain v where "bin_value ops bop (get ops s a) (get ops s b) = Inr v"
      using bin_value_known [OF k z m] by blast
    then have "step ops s = Inr (True, set_var d v ?s)"
      using i assms by (simp add: step_fetch get_eq)
    then show ?thesis by blast
  qed
  have 8: "step ops s = Inl (RuntimeError (''Unknown bin op '' @ bop))"
    if "vm_code s ! pc s = BBin d bop a b" "bop \<notin> bin_ops"
    using that assms by (simp add: step_fetch bin_value_unknown)
  show ?thesis using 1 2 3 4 5 6 7 8 by blast
qed
theorem step_defensive_witness:
  "step exact_ops (init_vm [BJmp ''L''])
     = Inr (True, (init_vm [BJmp ''L''])\<lparr>pc := pc (init_vm [BJmp ''L''] :: rat vm) + 1\<rparr>) \<and>
   step exact_ops (init_vm [BCall None ''f'' [''1'']])
     = Inr (True, (init_vm [BCall None ''f'' [''1'']])
         \<lparr>pc := pc (init_vm [BCall None ''f'' [''1'']] :: rat vm) + 1\<rparr>) \<and>
   get exact_ops (init_vm [BJmp ''L'']) ''x'' = 0 \<and>
   (\<exists>v. step exact_ops (init_vm [BBin ''d'' ''/'' ''6'' ''3''])
     = Inr (True, set_var ''d'' v ((init_vm [BBin ''d'' ''/'' ''6'' ''3''])
         \<lparr>pc := pc (init_vm [BBin ''d'' ''/'' ''6'' ''3''] :: rat vm) + 1\<rparr>)))"
proof -
  let ?j = "init_vm [BJmp ''L''] :: rat vm"
  let ?c = "init_vm [BCall None ''f'' [''1'']] :: rat vm"
  let ?b = "init_vm [BBin ''d'' ''/'' ''6'' ''3''] :: rat vm"
  have pj: "pc ?j < length (vm_code ?j)" by (simp add: init_vm_def)
  have pc: "pc ?c < length (vm_code ?c)" by (simp add: init_vm_def)
  have pb: "pc ?b < length (vm_code ?b)" by (simp add: init_vm_def)
  have ij: "vm_code ?j ! pc ?j = BJmp ''L'' \<and> labels ?j ''L'' = None"
    by (simp add: init_vm_def)
  have ic: "vm_code ?c ! pc ?c = BCall None ''f'' [''1''] \<and> func_meta ?c ''f'' = None"
    by (simp add: init_vm_def)
  have gx: "parse_float exact_ops ''x'' = None \<and> env_dict ?j (env ?j) ''x'' = None
      \<and> global_env ?j ''x'' = None"
    by (simp add: init_vm_def env_dict_def exact_ops_def parse_digits_def is_digit_def)
  have g3: "get exact_ops ?b ''3'' = 3"
    by (simp add: get_def exact_ops_def parse_digits_def is_digit_def digit_val_def)
  have ib: "vm_code ?b ! pc ?b = BBin ''d'' ''/'' ''6'' ''3'' \<and> ''/'' \<in> bin_ops \<and>
      (''/'' = ''/'' \<longrightarrow> \<not> f_eq exact_ops (get exact_ops ?b ''3'') (float_of_int exact_ops 0)) \<and>
      (''/'' = ''%'' \<longrightarrow> (\<exists>i j. to_int exact_ops (get exact_ops ?b ''6'') = Inr i
          \<and> to_int exact_ops (get exact_ops ?b ''3'') = Inr j \<and> j \<noteq> 0))"
    by (simp add: g3) (simp add: init_vm_def bin_ops_def exact_ops_def)
  have 1: "step exact_ops ?j = Inr (True, ?j\<lparr>pc := pc ?j + 1\<rparr>)"
    using step_defensive [OF pj, where ops = exact_ops and l = "''L''"] ij by blast
  have 2: "step exact_ops ?c = Inr (True, ?c\<lparr>pc := pc ?c + 1\<rparr>)"
    using step_defensive [OF pc, where ops = exact_ops and f = "''f''" and dst = None
        and args = "[''1'']"] ic by blast
  have 3: "get exact_ops ?j ''x'' = float_of_int exact_ops 0"
    using step_defensive [OF pj, where ops = exact_ops and x = "''x''"] gx by blast
  have 4: "\<exists>v. step exact_ops ?b = Inr (True, set_var ''d'' v (?b\<lparr>pc := pc ?b + 1\<rparr>))"
    using step_defensive [OF pb, where ops = exact_ops and d = "''d''" and bop = "''/''"
        and a = "''6''" and b = "''3''"] ib by blast
  have z: "float_of_int exact_ops 0 = (0 :: rat)" by (simp add: exact_ops_def)
  show ?thesis using 1 2 3 4 z by simp
qed

subsection \<open>Leaving a call\<close>

lemma get_pc_update: "get ops (s\<lparr>pc := n\<rparr>) y = get ops s y"
  by (simp add: get_def lookup_global_def split: option.splits env_ref.splits)

lemma return_to_fields:
  "pc (return_to fr rest val s) = ret_pc fr \<and>
   stack (return_to fr rest val s) = rest \<and>
   vm_output (return_to fr rest val s) = vm_output s \<and>
   vm_code (return_to fr rest val s) = vm_code s \<and>
   labels (return_to fr rest val s) = labels s \<and>
   func_meta (return_to fr rest val s) = func_meta s"
  by (cases "ret_dst fr"; cases "frame_env fr") (simp_all add: return_to_def set_var_def)

lemma return_to_env:
  "env_dict (return_to fr rest val s) (env (return_to fr rest val s)) =
     (case ret_dst fr of
        Some d \<Rightarrow> (env_dict s (frame_env fr))(d \<mapsto> val)
      | None \<Rightarrow> env_dict s (frame_env fr))"
  by (cases "ret_dst fr"; cases "frame_env fr")
     (simp_all add: return_to_def set_var_def env_dict_def)

lemma return_to_global:
  "(frame_env fr = Global \<longrightarrow> env (return_to fr rest val s) = Global) \<and>
   (frame_env fr \<noteq> Global \<longrightarrow> global_env (return_to fr rest val s) = global_env s)"
  by (cases "ret_dst fr"; cases "frame_env fr") (simp_all add: return_to_def set_var_def)

lemma env_dict_pc_update: "env_dict (s\<lparr>pc := n\<rparr>) r = env_dict s r"
  by (simp add: env_dict_def split: env_ref.splits)

text \<open>
  Claim C8: \<open>RET\<close> with a frame on the call stack pops the frame and makes its environment
  the current one again, changed only at the frame's return destination (if it has one),
  which gets the value of the operand, read in the callee's environment, or \<open>0\<close> without
  an operand; the pc becomes the frame's return pc; the frames below, the output, the code
  and the tables stay, and so does the global environment unless it is the caller's own.
  \<open>RET\<close> with an empty call stack returns \<open>False\<close> with the pc at the end of the code and
  the output unchanged, and \<open>run_loop\<close> ends with that output.
\<close>

theorem step_ret:
  assumes "pc s < length (vm_code s)" and "vm_code s ! pc s = BRet v"
  shows
    "(stack s = [] \<longrightarrow>
        step ops s = Inr (False, s\<lparr>pc := length (vm_code s)\<rparr>) \<and>
        run_loop ops s = Some (Inr (vm_output s))) \<and>
     (stack s = fr # rest \<longrightarrow>
        (\<exists>s'. step ops s = Inr (True, s') \<and>
           pc s' = ret_pc fr \<and> stack s' = rest \<and> vm_output s' = vm_output s \<and>
           vm_code s' = vm_code s \<and> labels s' = labels s \<and> func_meta s' = func_meta s \<and>
           env_dict s' (env s') =
             (case ret_dst fr of
                Some d \<Rightarrow> (env_dict s (frame_env fr))
                            (d \<mapsto> (case v of Some x \<Rightarrow> get ops s x | None \<Rightarrow> float_of_int ops 0))
              | None \<Rightarrow> env_dict s (frame_env fr)) \<and>
           (frame_env fr = Global \<longrightarrow> env s' = Global) \<and>
           (frame_env fr \<noteq> Global \<longrightarrow> global_env s' = global_env s)))"
proof (intro conjI impI)
  let ?s = "s\<lparr>pc := pc s + 1\<rparr>"
  let ?rv = "case v of Some x \<Rightarrow> get ops s x | None \<Rightarrow> float_of_int ops 0"
  have fetch: "step ops s = exec ops (BRet v) ?s"
    using assms by (simp add: step_fetch)
  {
    assume e: "stack s = []"
    show empty: "step ops s = Inr (False, s\<lparr>pc := length (vm_code s)\<rparr>)"
      using e fetch by simp
    show "run_loop ops s = Some (Inr (vm_output s))"
      by (subst run_loop.simps) (simp add: empty)
  }
  assume st: "stack s = fr # rest"
  let ?r = "return_to fr rest ?rv ?s"
  have ret: "step ops s = Inr (True, ?r)"
    using st fetch by (cases v) (simp_all add: get_pc_update)
  have dict: "env_dict ?r (env ?r) =
      (case ret_dst fr of
         Some d \<Rightarrow> (env_dict s (frame_env fr))(d \<mapsto> ?rv)
       | None \<Rightarrow> env_dict s (frame_env fr))"
    by (cases "ret_dst fr") (simp_all add: return_to_env env_dict_pc_update)
  have glob: "(frame_env fr = Global \<longrightarrow> env ?r = Global) \<and>
      (frame_env fr \<noteq> Global \<longrightarrow> global_env ?r = global_env s)"
    using return_to_global [of fr rest ?rv ?s] by simp
  have fields: "pc ?r = ret_pc fr \<and> stack ?r = rest \<and> vm_output ?r = vm_output s \<and>
      vm_code ?r = vm_code s \<and> labels ?r = labels s \<and> func_meta ?r = func_meta s"
    using return_to_fields [of fr rest ?rv ?s] by simp
  show "\<exists>s'. step ops s = Inr (True, s') \<and>
           pc s' = ret_pc fr \<and> stack s' = rest \<and> vm_output s' = vm_output s \<and>
           vm_code s' = vm_code s \<and> labels s' = labels s \<and> func_meta s' = func_meta s \<and>
           env_dict s' (env s') =
             (case ret_dst fr of
                Some d \<Rightarrow> (env_dict s (frame_env fr))(d \<mapsto> ?rv)
              | None \<Rightarrow> env_dict s (frame_env fr)) \<and>
           (frame_env fr = Global \<longrightarrow> env s' = Global) \<and>
           (frame_env fr \<noteq> Global \<longrightarrow> global_env s' = global_env s)"
  proof (intro exI [of _ ?r] conjI)
    show "step ops s = Inr (True, ?r)" by (rule ret)
    show "pc ?r = ret_pc fr" by (rule fields [THEN conjunct1])
    show "stack ?r = rest" by (rule fields [THEN conjunct2, THEN conjunct1])
    show "vm_output ?r = vm_output s"
      by (rule fields [THEN conjunct2, THEN conjunct2, THEN conjunct1])
    show "vm_code ?r = vm_code s"
      by (rule fields [THEN conjunct2, THEN conjunct2, THEN conjunct2, THEN conjunct1])
    show "labels ?r = labels s"
      by (rule fields [THEN conjunct2, THEN conjunct2, THEN conjunct2, THEN conjunct2,
            THEN conjunct1])
    show "func_meta ?r = func_meta s"
      by (rule fields [THEN conjunct2, THEN conjunct2, THEN conjunct2, THEN conjunct2,
            THEN conjunct2])
    show "env_dict ?r (env ?r) =
      (case ret_dst fr of
         Some d \<Rightarrow> (env_dict s (frame_env fr))(d \<mapsto> ?rv)
       | None \<Rightarrow> env_dict s (frame_env fr))"
      by (rule dict)
    show "frame_env fr = Global \<longrightarrow> env ?r = Global" by (rule glob [THEN conjunct1])
    show "frame_env fr \<noteq> Global \<longrightarrow> global_env ?r = global_env s"
      by (rule glob [THEN conjunct2])
  qed
qed
theorem step_ret_witness:
  "(\<exists>s'. step exact_ops
          \<lparr>vm_code = [BRet (Some ''7'')], labels = Map.empty, func_meta = Map.empty, pc = 0,
           stack = [\<lparr>frame_env = Global, ret_pc = 5, ret_dst = Some ''r''\<rparr>],
           global_env = Map.empty, env = Local Map.empty, vm_output = []\<rparr>
        = Inr (True, s') \<and>
        pc s' = 5 \<and> stack s' = [] \<and> vm_output s' = [] \<and> env s' = Global \<and>
        env_dict s' (env s') = [''r'' \<mapsto> 7]) \<and>
   step exact_ops (init_vm [BRet None]) = Inr (False, (init_vm [BRet None])\<lparr>pc := 1\<rparr>) \<and>
   run_loop exact_ops (init_vm [BRet None]) = Some (Inr [])"
proof -
  let ?fr = "\<lparr>frame_env = Global, ret_pc = 5, ret_dst = Some ''r''\<rparr> :: rat frame"
  let ?s0 = "\<lparr>vm_code = [BRet (Some ''7'')], labels = Map.empty, func_meta = Map.empty, pc = 0,
           stack = [?fr], global_env = Map.empty, env = Local Map.empty, vm_output = []\<rparr>
           :: rat vm"
  let ?e = "init_vm [BRet None] :: rat vm"
  have p: "pc ?s0 < length (vm_code ?s0)" by simp
  have i: "vm_code ?s0 ! pc ?s0 = BRet (Some ''7'')" by simp
  have st: "stack ?s0 = ?fr # []" by simp
  have g7: "get exact_ops ?s0 ''7'' = 7"
    by (simp add: get_def exact_ops_def parse_digits_def is_digit_def digit_val_def)
  note T = step_ret [OF p i, where ops = exact_ops and fr = ?fr and rest = "[]"]
  from T [THEN conjunct2, THEN mp, OF st] obtain s' where
    s: "step exact_ops ?s0 = Inr (True, s')" and
    f: "pc s' = ret_pc ?fr" "stack s' = []" "vm_output s' = vm_output ?s0" and
    d: "env_dict s' (env s') =
          (case ret_dst ?fr of
             Some d \<Rightarrow> (env_dict ?s0 (frame_env ?fr))
                 (d \<mapsto> (case Some ''7'' of Some x \<Rightarrow> get exact_ops ?s0 x
                                           | None \<Rightarrow> float_of_int exact_ops 0))
           | None \<Rightarrow> env_dict ?s0 (frame_env ?fr))" and
    g: "frame_env ?fr = Global \<longrightarrow> env s' = Global"
    by (elim exE conjE)
  have d': "env_dict s' (env s') = [''r'' \<mapsto> 7]"
    using d by (simp add: g7 env_dict_def)
  have a: "\<exists>s'. step exact_ops ?s0 = Inr (True, s') \<and>
        pc s' = 5 \<and> stack s' = [] \<and> vm_output s' = [] \<and> env s' = Global \<and>
        env_dict s' (env s') = [''r'' \<mapsto> 7]"
    using s f d' g by (intro exI [of _ s']) simp
  have p2: "pc ?e < length (vm_code ?e)" by (simp add: init_vm_def)
  have i2: "vm_code ?e ! pc ?e = BRet None" by (simp add: init_vm_def)
  have st2: "stack ?e = []" by (simp add: init_vm_def)
  note E = step_ret [OF p2 i2, where ops = exact_ops, THEN conjunct1, THEN mp, OF st2]
  have b: "step exact_ops ?e = Inr (False, ?e\<lparr>pc := 1\<rparr>)"
    using E [THEN conjunct1] by (simp add: init_vm_def)
  have c: "run_loop exact_ops ?e = Some (Inr [])"
    using E [THEN conjunct2] by (simp add: init_vm_def)
  show ?thesis using a b c by (intro conjI)
qed

subsection \<open>Entering a call\<close>

lemma bind_params_other:
  "x \<notin> set ps \<Longrightarrow> bind_params ops ps vals i e x = e x"
  by (induction ps arbitrary: i e) simp_all

lemma dom_bind_params: "dom (bind_params ops ps vals i e) = dom e \<union> set ps"
  by (induction ps arbitrary: i e) auto

lemma bind_params_nth:
  "k < length ps \<Longrightarrow> ps ! k \<notin> set (drop (Suc k) ps) \<Longrightarrow> i + k < length vals \<Longrightarrow>
     bind_params ops ps vals i e (ps ! k) = Some (vals ! (i + k))"
proof (induction ps arbitrary: i e k)
  case Nil
  then show ?case by simp
next
  case (Cons p ps)
  show ?case
  proof (cases k)
    case 0
    then have "p \<notin> set ps" using Cons.prems(2) by simp
    then show ?thesis using 0 Cons.prems(3) by (simp add: bind_params_other)
  next
    case (Suc j)
    then have "bind_params ops ps vals (i + 1) (e(p \<mapsto> (if i < length vals then vals ! i
          else float_of_int ops 0))) (ps ! j) = Some (vals ! (i + 1 + j))"
      using Cons.prems by (intro Cons.IH) simp_all
    then show ?thesis using Suc by simp
  qed
qed

lemma get_pc_update_fun: "get ops (s\<lparr>pc := n\<rparr>) = get ops s"
  by (rule ext) (simp add: get_pc_update)

text \<open>
  Claim C9: a \<open>CALL\<close> with more arguments than the callee has parameters evaluates the
  argument operands in the caller's environment, pushes the caller's frame (its
  environment, the pc of the next instruction and the destination), and continues at the
  instruction after the callee's \<open>FUNC\<close> in a fresh environment whose names are exactly
  the parameters: each parameter has the value of the argument at its position (for a name
  that occurs twice among the parameters, the one of its last position), and the surplus
  arguments are bound to nothing. No error is raised and the global environment is
  unchanged.
\<close>

theorem step_call_extra_args:
  assumes "pc s < length (vm_code s)"
    and "vm_code s ! pc s = BCall dst name args"
    and "func_meta s name = Some meta"
    and "length (m_params meta) < length args"
  shows
    "\<exists>e. step ops s =
        Inr (True, s\<lparr>pc := m_start meta + 1,
                      stack := \<lparr>frame_env = env s, ret_pc = pc s + 1, ret_dst = dst\<rparr> # stack s,
                      env := Local e\<rparr>) \<and>
       dom e = set (m_params meta) \<and>
       (\<forall>k < length (m_params meta).
          m_params meta ! k \<notin> set (drop (Suc k) (m_params meta)) \<longrightarrow>
          e (m_params meta ! k) = Some (get ops s (args ! k)))"
proof -
  let ?s = "s\<lparr>pc := pc s + 1\<rparr>"
  let ?vals = "map (get ops s) args"
  let ?e = "bind_params ops (m_params meta) ?vals 0 Map.empty"
  have "step ops s = exec ops (BCall dst name args) ?s"
    using assms(1,2) by (simp add: step_fetch)
  then have step: "step ops s =
      Inr (True, s\<lparr>pc := m_start meta + 1,
                    stack := \<lparr>frame_env = env s, ret_pc = pc s + 1, ret_dst = dst\<rparr> # stack s,
                    env := Local ?e\<rparr>)"
    using assms(3) by (simp add: get_pc_update_fun)
  have dom: "dom ?e = set (m_params meta)"
    by (simp add: dom_bind_params)
  have nth: "?e (m_params meta ! k) = Some (get ops s (args ! k))"
    if "k < length (m_params meta)" "m_params meta ! k \<notin> set (drop (Suc k) (m_params meta))"
    for k
  proof -
    have "k < length args" using that(1) assms(4) by simp
    then have "?e (m_params meta ! k) = Some (?vals ! (0 + k))"
      using that by (intro bind_params_nth) simp_all
    then show ?thesis using \<open>k < length args\<close> by simp
  qed
  show ?thesis
  proof (intro exI [of _ ?e] conjI allI impI)
    show "step ops s =
      Inr (True, s\<lparr>pc := m_start meta + 1,
                    stack := \<lparr>frame_env = env s, ret_pc = pc s + 1, ret_dst = dst\<rparr> # stack s,
                    env := Local ?e\<rparr>)"
      by (rule step)
    show "dom ?e = set (m_params meta)" by (rule dom)
    show "?e (m_params meta ! k) = Some (get ops s (args ! k))"
      if "k < length (m_params meta)" "m_params meta ! k \<notin> set (drop (Suc k) (m_params meta))"
      for k
      using that by (rule nth)
  qed
qed

theorem step_call_extra_args_witness:
  "\<exists>e. step exact_ops
          ((init_vm [BFunc ''f'' [''p''], BEndFunc ''f'', BCall (Some ''r'') ''f'' [''1'', ''2'']])
             \<lparr>pc := 2\<rparr>)
        = Inr (True,
            (init_vm [BFunc ''f'' [''p''], BEndFunc ''f'', BCall (Some ''r'') ''f'' [''1'', ''2'']])
              \<lparr>pc := 1, stack := [\<lparr>frame_env = Global, ret_pc = 3, ret_dst = Some ''r''\<rparr>],
               env := Local e\<rparr>) \<and>
        dom e = {''p''} \<and> e ''p'' = Some (1 :: rat)"
proof -
  let ?c = "[BFunc ''f'' [''p''], BEndFunc ''f'', BCall (Some ''r'') ''f'' [''1'', ''2'']]"
  let ?s = "(init_vm ?c)\<lparr>pc := 2\<rparr> :: rat vm"
  let ?m = "\<lparr>m_start = 0, m_end = 1, m_params = [''p'']\<rparr>"
  have p: "pc ?s < length (vm_code ?s)" by (simp add: init_vm_def)
  have i: "vm_code ?s ! pc ?s = BCall (Some ''r'') ''f'' [''1'', ''2'']"
    by (simp add: init_vm_def)
  have m: "func_meta ?s ''f'' = Some ?m" by (simp add: init_vm_def)
  have l: "length (m_params ?m) < length [''1'', ''2'']" by simp
  have g: "get exact_ops ?s ''1'' = 1"
    by (simp add: get_def exact_ops_def parse_digits_def is_digit_def digit_val_def)
  from step_call_extra_args [OF p i m l, where ops = exact_ops] obtain e where
    s: "step exact_ops ?s =
        Inr (True, ?s\<lparr>pc := m_start ?m + 1,
                      stack := \<lparr>frame_env = env ?s, ret_pc = pc ?s + 1, ret_dst = Some ''r''\<rparr>
                               # stack ?s,
                      env := Local e\<rparr>)" and
    d: "dom e = set (m_params ?m)" and
    n: "\<forall>k < length (m_params ?m).
          m_params ?m ! k \<notin> set (drop (Suc k) (m_params ?m)) \<longrightarrow>
          e (m_params ?m ! k) = Some (get exact_ops ?s ([''1'', ''2''] ! k))"
    by (elim exE conjE)
  have n0: "e ''p'' = Some 1" using n [THEN spec, of 0] by (simp add: g)
  have s': "step exact_ops ?s =
      Inr (True, (init_vm ?c)\<lparr>pc := 1,
          stack := [\<lparr>frame_env = Global, ret_pc = 3, ret_dst = Some ''r''\<rparr>], env := Local e\<rparr>)"
    using s by (simp add: init_vm_def)
  have d': "dom e = {''p''}" using d by simp
  show ?thesis using s' d' n0 by (intro exI [of _ e] conjI)
qed

section \<open>Symbol table (domain/symbol\_table.py)\<close>

record symbol =
  sym_name :: string
  sym_type :: string

text \<open>
  A \<open>Scope\<close> is its dictionary of symbols; its parent is the scope that was current when
  it was pushed. \<^verbatim>\<open>SymbolTable.scopes\<close> is kept with the current scope at the head (the
  reverse of the Python list), so a scope's parent chain is the rest of the list.
  \<^verbatim>\<open>current()\<close> is \<^verbatim>\<open>self.scopes[-1]\<close>, which raises on an empty list: \<open>define_sym\<close> and
  \<open>resolve\<close> return \<open>None\<close> there.
\<close>

type_synonym scope = "string \<rightharpoonup> symbol"

definition push_scope :: "scope list \<Rightarrow> scope list" where
  "push_scope scopes = Map.empty # scopes"

definition pop_scope :: "scope list \<Rightarrow> scope list" where
  "pop_scope scopes = (case scopes of [] \<Rightarrow> [] | _ # rest \<Rightarrow> rest)"

definition define_sym :: "string \<Rightarrow> string \<Rightarrow> scope list \<Rightarrow> (bool \<times> scope list) option" where
  "define_sym name ty scopes =
     (case scopes of
        [] \<Rightarrow> None
      | cur # outer \<Rightarrow>
          if cur name \<noteq> None then Some (False, scopes)
          else Some (True, cur(name \<mapsto> \<lparr>sym_name = name, sym_type = ty\<rparr>) # outer))"

fun resolve_chain :: "string \<Rightarrow> scope list \<Rightarrow> symbol option" where
  "resolve_chain name [] = None"
| "resolve_chain name (sc # parents) =
     (case sc name of Some s \<Rightarrow> Some s | None \<Rightarrow> resolve_chain name parents)"

definition resolve :: "string \<Rightarrow> scope list \<Rightarrow> symbol option option" where
  "resolve name scopes = (if scopes = [] then None else Some (resolve_chain name scopes))"

text \<open>\<open>to_json\<close>: one entry per scope, the global scope at level \<open>0\<close>, each name with its type.\<close>

definition to_json :: "scope list \<Rightarrow> (nat \<times> (string \<rightharpoonup> string)) list" where
  "to_json scopes = map (\<lambda>(idx, sc). (idx, map_option sym_type \<circ> sc)) (enumerate 0 (rev scopes))"

section \<open>Semantic analysis (pipeline/semantics.py)\<close>

record parse_error =
  message :: string
  line :: int
  col :: int

record func_sig =
  sig_ret :: string
  sig_params :: "(string \<times> string) list"

record analyzer =
  symtab :: "scope list"
  errors :: "parse_error list"
  funcs :: "string \<rightharpoonup> func_sig"
  current_ret :: "string option"

definition err :: "int \<Rightarrow> int \<Rightarrow> string \<Rightarrow> analyzer \<Rightarrow> analyzer" where
  "err l c msg a = a\<lparr>errors := errors a @ [\<lparr>message = msg, line = l, col = c\<rparr>]\<rparr>"

definition quoted :: "string \<Rightarrow> string" where
  "quoted name = CHR 0x27 # name @ [CHR 0x27]"

definition NUMERIC :: "string set" where
  "NUMERIC = {''int'', ''float''}"

definition assignable :: "string \<Rightarrow> string \<Rightarrow> bool" where
  "assignable to_type from_type =
     (if to_type = from_type then True
      else if to_type = ''float'' \<and> from_type = ''int'' then True
      else if to_type = ''void'' then from_type = ''void''
      else False)"

text \<open>
  The type and the diagnostic of a binary node from its operator and the types of its
  operands (the body of \<open>visit_binary\<close> after the two visits).
\<close>

definition binary_type :: "string \<Rightarrow> string \<Rightarrow> string \<Rightarrow> string \<times> string option" where
  "binary_type op lt rt =
     (if op \<in> {''+'', ''-'', ''*'', ''/''} then
        (if lt \<in> NUMERIC \<and> rt \<in> NUMERIC
         then (if lt = ''float'' \<or> rt = ''float'' then ''float'' else ''int'', None)
         else (''error'', Some (''Operator '' @ quoted op @ '' requires numeric operands'')))
      else if op = ''%'' then
        (if lt = ''int'' \<and> rt = ''int'' then (''int'', None)
         else (''error'', Some (quoted ''%'' @ '' requires int operands'')))
      else if op \<in> {''<'', ''<='', ''>'', ''>=''} then
        (if lt \<in> NUMERIC \<and> rt \<in> NUMERIC then (''bool'', None)
         else (''error'', Some (''Operator '' @ quoted op @ '' requires numeric operands'')))
      else if op \<in> {''=='', ''!=''} then
        (if lt = rt \<and> lt \<noteq> ''error'' then (''bool'', None)
         else (''error'', Some (quoted ''=='' @ ''/'' @ quoted ''!='' @
                                '' require operands of the same type'')))
      else if op \<in> {''&&'', ''||''} then
        (if lt = ''bool'' \<and> rt = ''bool'' then (''bool'', None)
         else (''error'', Some (quoted ''&&'' @ ''/'' @ quoted ''||'' @ '' require bool operands'')))
      else (''error'', Some (''Unknown operator '' @ quoted op)))"

definition unary_type :: "string \<Rightarrow> string \<Rightarrow> string \<times> string option" where
  "unary_type op t =
     (if op = ''!'' then
        (if t \<noteq> ''bool'' then (''error'', Some (quoted ''!'' @ '' requires bool''))
         else (''bool'', None))
      else if op \<in> {''+'', ''-''} then
        (if t \<notin> NUMERIC
         then (''error'', Some (''Unary '' @ quoted op @ '' requires numeric operand''))
         else (t, None))
      else (''error'', None))"

definition report :: "string option \<Rightarrow> analyzer \<Rightarrow> analyzer" where
  "report msg a = (case msg of Some m \<Rightarrow> err 0 0 m a | None \<Rightarrow> a)"

text \<open>
  \<open>visit_expr\<close> returns the node with its \<^verbatim>\<open>inferred_type\<close> set, the type, and the
  analyzer; \<open>None\<close> is an exception. \<open>visit_all\<close> is the loop over the arguments of a call
  of an undefined function; \<open>visit_zip\<close> is the loop
  \<^verbatim>\<open>for (pt, _), arg in zip(sig.params, node.args)\<close>, which ends with the shorter
  list and leaves the remaining arguments as they are.
\<close>

fun visit_expr :: "expr \<Rightarrow> analyzer \<Rightarrow> (expr \<times> string \<times> analyzer) option"
  and visit_all :: "expr list \<Rightarrow> analyzer \<Rightarrow> (expr list \<times> analyzer) option"
  and visit_zip ::
    "int \<Rightarrow> int \<Rightarrow> string \<Rightarrow> (string \<times> string) list \<Rightarrow> expr list \<Rightarrow> analyzer
       \<Rightarrow> (expr list \<times> analyzer) option" where
  "visit_expr (Assign _ name value l c) a =
     (case resolve name (symtab a) of
        None \<Rightarrow> None
      | Some None \<Rightarrow>
          (case visit_expr value (err l c (''Undeclared variable '' @ quoted name) a) of
             None \<Rightarrow> None
           | Some (value', _, a1) \<Rightarrow> Some (Assign (Some ''error'') name value' l c, ''error'', a1))
      | Some (Some symb) \<Rightarrow>
          (case visit_expr value a of
             None \<Rightarrow> None
           | Some (value', val_t, a1) \<Rightarrow>
               if \<not> assignable (sym_type symb) val_t
               then Some (Assign (Some ''error'') name value' l c, ''error'',
                          err l c (''Cannot assign '' @ val_t @ '' to '' @ sym_type symb @
                                   '' variable '' @ quoted name) a1)
               else Some (Assign (Some (sym_type symb)) name value' l c, sym_type symb, a1)))"
| "visit_expr (Call _ name args l c) a =
     (case funcs a name of
        None \<Rightarrow>
          (case visit_all args (err l c (''Call to undefined function '' @ quoted name) a) of
             None \<Rightarrow> None
           | Some (args', a1) \<Rightarrow> Some (Call (Some ''error'') name args' l c, ''error'', a1))
      | Some sig \<Rightarrow>
          (let a1 = (if length args \<noteq> length (sig_params sig)
                     then err l c (''Function '' @ quoted name @ '' expects '' @
                                   str_nat (length (sig_params sig)) @ '' arg(s), got '' @
                                   str_nat (length args)) a
                     else a)
           in case visit_zip l c name (sig_params sig) args a1 of
                None \<Rightarrow> None
              | Some (args', a2) \<Rightarrow> Some (Call (Some (sig_ret sig)) name args' l c, sig_ret sig, a2)))"
| "visit_expr (Literal _ v kind) a = Some (Literal (Some kind) v kind, kind, a)"
| "visit_expr (Var _ name l c) a =
     (case resolve name (symtab a) of
        None \<Rightarrow> None
      | Some None \<Rightarrow>
          Some (Var (Some ''error'') name l c, ''error'',
                err l c (''Undeclared variable '' @ quoted name) a)
      | Some (Some symb) \<Rightarrow> Some (Var (Some (sym_type symb)) name l c, sym_type symb, a))"
| "visit_expr (Unary _ op right) a =
     (case visit_expr right a of
        None \<Rightarrow> None
      | Some (right', t, a1) \<Rightarrow>
          (let (ty, msg) = unary_type op t
           in Some (Unary (Some ty) op right', ty, report msg a1)))"
| "visit_expr (Binary _ left op right) a =
     (case visit_expr left a of
        None \<Rightarrow> None
      | Some (left', lt, a1) \<Rightarrow>
          (case visit_expr right a1 of
             None \<Rightarrow> None
           | Some (right', rt, a2) \<Rightarrow>
               (let (ty, msg) = binary_type op lt rt
                in Some (Binary (Some ty) left' op right', ty, report msg a2))))"
| "visit_expr (Grouping _ e) a =
     (case visit_expr e a of
        None \<Rightarrow> None
      | Some (e', t, a1) \<Rightarrow> Some (Grouping (Some t) e', t, a1))"
| "visit_all [] a = Some ([], a)"
| "visit_all (x # xs) a =
     (case visit_expr x a of
        None \<Rightarrow> None
      | Some (x', _, a1) \<Rightarrow>
          (case visit_all xs a1 of
             None \<Rightarrow> None
           | Some (xs', a2) \<Rightarrow> Some (x' # xs', a2)))"
| "visit_zip l c name [] args a = Some (args, a)"
| "visit_zip l c name (p # ps) [] a = Some ([], a)"
| "visit_zip l c name ((pt, pn) # ps) (arg # args) a =
     (case visit_expr arg a of
        None \<Rightarrow> None
      | Some (arg', arg_t, a1) \<Rightarrow>
          (let a2 = (if \<not> assignable pt arg_t
                     then err l c (''Argument type '' @ arg_t @ '' incompatible with parameter '' @
                                   pt @ '' in call to '' @ quoted name) a1
                     else a1)
           in case visit_zip l c name ps args a2 of
                None \<Rightarrow> None
              | Some (args', a3) \<Rightarrow> Some (arg' # args', a3)))"

fun is_function_decl :: "stmt \<Rightarrow> bool" where
  "is_function_decl (FunctionDecl _ _ _ _) = True"
| "is_function_decl _ = False"

definition check_bool :: "string \<Rightarrow> string \<Rightarrow> analyzer \<Rightarrow> analyzer" where
  "check_bool what t a = (if t \<noteq> ''bool'' then err 0 0 (what @ '' condition must be bool'') a else a)"

text \<open>
  \<open>visit_stmt\<close> returns the node, with the expressions below it annotated, and the
  analyzer. \<open>visit_block\<close> pushes a scope, runs \<open>visit_stmts\<close> (the loop over the
  statements, which reports a nested function declaration and does not visit it) and pops
  the scope. \<open>visit_stmt\<close> ignores a function declaration.
\<close>

fun visit_stmt :: "stmt \<Rightarrow> analyzer \<Rightarrow> (stmt \<times> analyzer) option"
  and visit_block :: "stmt list \<Rightarrow> analyzer \<Rightarrow> (stmt list \<times> analyzer) option"
  and visit_stmts :: "stmt list \<Rightarrow> analyzer \<Rightarrow> (stmt list \<times> analyzer) option" where
  "visit_stmt (Block statements) a =
     (case visit_block statements a of
        None \<Rightarrow> None
      | Some (ss, a1) \<Rightarrow> Some (Block ss, a1))"
| "visit_stmt (VarDecl var_type name init l c) a =
     (case define_sym name var_type (symtab a) of
        None \<Rightarrow> None
      | Some (ok, scopes) \<Rightarrow>
          (let a1 = a\<lparr>symtab := scopes\<rparr>;
               a2 = (if \<not> ok then err l c (''Redeclaration of '' @ quoted name) a1 else a1)
           in case init of
                None \<Rightarrow> Some (VarDecl var_type name None l c, a2)
              | Some e \<Rightarrow>
                  (case visit_expr e a2 of
                     None \<Rightarrow> None
                   | Some (e', t, a3) \<Rightarrow>
                       Some (VarDecl var_type name (Some e') l c,
                             if \<not> assignable var_type t
                             then err l c (''Cannot assign '' @ t @ '' to '' @ var_type @
                                           '' in declaration '' @ quoted name) a3
                             else a3))))"
| "visit_stmt (If_stmt cond then_branch else_branch) a =
     (case visit_expr cond a of
        None \<Rightarrow> None
      | Some (cond', t, a1) \<Rightarrow>
          (case visit_stmt then_branch (check_bool ''if'' t a1) of
             None \<Rightarrow> None
           | Some (then', a2) \<Rightarrow>
               (case else_branch of
                  None \<Rightarrow> Some (If_stmt cond' then' None, a2)
                | Some e \<Rightarrow>
                    (case visit_stmt e a2 of
                       None \<Rightarrow> None
                     | Some (e', a3) \<Rightarrow> Some (If_stmt cond' then' (Some e'), a3)))))"
| "visit_stmt (While cond body) a =
     (case visit_expr cond a of
        None \<Rightarrow> None
      | Some (cond', t, a1) \<Rightarrow>
          (case visit_stmt body (check_bool ''while'' t a1) of
             None \<Rightarrow> None
           | Some (body', a2) \<Rightarrow> Some (While cond' body', a2)))"
| "visit_stmt (For init cond post body) a =
     (case (case init of
              None \<Rightarrow> Some (None, a\<lparr>symtab := push_scope (symtab a)\<rparr>)
            | Some s \<Rightarrow>
                (case visit_stmt s (a\<lparr>symtab := push_scope (symtab a)\<rparr>) of
                   None \<Rightarrow> None
                 | Some (s', a') \<Rightarrow> Some (Some s', a'))) of
        None \<Rightarrow> None
      | Some (init', a1) \<Rightarrow>
          (case (case cond of
                   None \<Rightarrow> Some (None, a1)
                 | Some e \<Rightarrow>
                     (case visit_expr e a1 of
                        None \<Rightarrow> None
                      | Some (e', t, a') \<Rightarrow> Some (Some e', check_bool ''for'' t a'))) of
             None \<Rightarrow> None
           | Some (cond', a2) \<Rightarrow>
               (case (case post of
                        None \<Rightarrow> Some (None, a2)
                      | Some s \<Rightarrow>
                          (case visit_stmt s a2 of
                             None \<Rightarrow> None
                           | Some (s', a') \<Rightarrow> Some (Some s', a'))) of
                  None \<Rightarrow> None
                | Some (post', a3) \<Rightarrow>
                    (case visit_stmt body a3 of
                       None \<Rightarrow> None
                     | Some (body', a4) \<Rightarrow>
                         Some (For init' cond' post' body',
                               a4\<lparr>symtab := pop_scope (symtab a4)\<rparr>)))))"
| "visit_stmt (Print e) a =
     (case visit_expr e a of
        None \<Rightarrow> None
      | Some (e', _, a1) \<Rightarrow> Some (Print e', a1))"
| "visit_stmt (Return eo) a =
     (case current_ret a of
        None \<Rightarrow>
          (case eo of
             None \<Rightarrow> Some (Return None, a)
           | Some e \<Rightarrow>
               (case visit_expr e a of
                  None \<Rightarrow> None
                | Some (e', _, a1) \<Rightarrow> Some (Return (Some e'), a1)))
      | Some ret \<Rightarrow>
          (case eo of
             None \<Rightarrow>
               Some (Return None,
                     if ret \<noteq> ''void''
                     then err 0 0 (''Return value required for function returning '' @ ret) a
                     else a)
           | Some e \<Rightarrow>
               (case visit_expr e a of
                  None \<Rightarrow> None
                | Some (e', t, a1) \<Rightarrow>
                    Some (Return (Some e'),
                          if \<not> assignable ret t
                          then err 0 0 (''Cannot return '' @ t @ '' from function returning '' @
                                        ret) a1
                          else a1))))"
| "visit_stmt (ExprStmt e) a =
     (case visit_expr e a of
        None \<Rightarrow> None
      | Some (e', _, a1) \<Rightarrow> Some (ExprStmt e', a1))"
| "visit_stmt (FunctionDecl rt name params body) a = Some (FunctionDecl rt name params body, a)"
| "visit_block statements a =
     (case visit_stmts statements (a\<lparr>symtab := push_scope (symtab a)\<rparr>) of
        None \<Rightarrow> None
      | Some (ss, a1) \<Rightarrow> Some (ss, a1\<lparr>symtab := pop_scope (symtab a1)\<rparr>))"
| "visit_stmts [] a = Some ([], a)"
| "visit_stmts (s # rest) a =
     (if is_function_decl s then
        (case visit_stmts rest (err 0 0 ''Nested function declarations not allowed'' a) of
           None \<Rightarrow> None
         | Some (rest', a2) \<Rightarrow> Some (s # rest', a2))
      else
        (case visit_stmt s a of
           None \<Rightarrow> None
         | Some (s', a1) \<Rightarrow>
             (case visit_stmts rest a1 of
                None \<Rightarrow> None
              | Some (rest', a2) \<Rightarrow> Some (s' # rest', a2))))"

text \<open>The loop of \<open>visit_function\<close> over the parameters.\<close>

fun define_params :: "param list \<Rightarrow> analyzer \<Rightarrow> analyzer option" where
  "define_params [] a = Some a"
| "define_params (p # ps) a =
     (case define_sym (p_name p) (p_type p) (symtab a) of
        None \<Rightarrow> None
      | Some (ok, scopes) \<Rightarrow>
          define_params ps
            (let a1 = a\<lparr>symtab := scopes\<rparr>
             in if \<not> ok then err 0 0 (''Parameter redeclared: '' @ p_name p) a1 else a1))"

text \<open>
  \<open>visit_function\<close>, on the fields of the \<open>FunctionDecl\<close>: it pushes a scope, defines the
  parameters in it, and calls \<open>visit_block\<close> on the body, which pushes a scope of its own.
\<close>

definition visit_function ::
  "string \<Rightarrow> string \<Rightarrow> param list \<Rightarrow> stmt list \<Rightarrow> analyzer \<Rightarrow> (stmt \<times> analyzer) option" where
  "visit_function return_type name params body a =
     (let saved_ret = current_ret a;
          a1 = a\<lparr>current_ret := Some return_type\<rparr>;
          a2 = a1\<lparr>symtab := push_scope (symtab a1)\<rparr>
      in case define_params params a2 of
           None \<Rightarrow> None
         | Some a3 \<Rightarrow>
             (case visit_block body a3 of
                None \<Rightarrow> None
              | Some (body', a4) \<Rightarrow>
                  Some (FunctionDecl return_type name params body',
                        a4\<lparr>symtab := pop_scope (symtab a4), current_ret := saved_ret\<rparr>)))"

text \<open>The two loops of \<open>visit_program\<close>: the signatures first, then the analysis.\<close>

fun collect_funcs :: "stmt list \<Rightarrow> analyzer \<Rightarrow> analyzer" where
  "collect_funcs [] a = a"
| "collect_funcs (FunctionDecl rt name params body # rest) a =
     collect_funcs rest
       (if funcs a name \<noteq> None then err 0 0 (''Redeclaration of function '' @ quoted name) a
        else a\<lparr>funcs := (funcs a)(name \<mapsto>
               \<lparr>sig_ret = rt, sig_params = map (\<lambda>p. (p_type p, p_name p)) params\<rparr>)\<rparr>)"
| "collect_funcs (_ # rest) a = collect_funcs rest a"

fun visit_top :: "stmt list \<Rightarrow> analyzer \<Rightarrow> (stmt list \<times> analyzer) option" where
  "visit_top [] a = Some ([], a)"
| "visit_top (s # rest) a =
     (case (case s of
              FunctionDecl rt name params body \<Rightarrow> visit_function rt name params body a
            | _ \<Rightarrow> visit_stmt s a) of
        None \<Rightarrow> None
      | Some (s', a1) \<Rightarrow>
          (case visit_top rest a1 of
             None \<Rightarrow> None
           | Some (rest', a2) \<Rightarrow> Some (s' # rest', a2)))"

definition visit_program :: "program \<Rightarrow> analyzer \<Rightarrow> (program \<times> analyzer) option" where
  "visit_program node a =
     (case node of Program body \<Rightarrow>
        (case visit_top body (collect_funcs body a) of
           None \<Rightarrow> None
         | Some (body', a1) \<Rightarrow> Some (Program body', a1)))"

text \<open>A new \<open>SemanticAnalyzer\<close>: the symbol table holds the global scope.\<close>

definition new_analyzer :: analyzer where
  "new_analyzer = \<lparr>symtab = [Map.empty], errors = [], funcs = Map.empty, current_ret = None\<rparr>"

section \<open>JSON projection of the tree (domain/ast\_nodes.py)\<close>

text \<open>
  \<open>ast_to_dict\<close> and \<open>typed_ast_to_dict\<close> build one dictionary per node. The model keeps,
  of each dictionary, its \<^verbatim>\<open>"type"\<close>, its \<^verbatim>\<open>"inferred"\<close> entry (\<open>None\<close>: no such key,
  \<open>Some None\<close>: the key with \<^verbatim>\<open>null\<close>, \<open>Some (Some t)\<close>: the key with a type) and the
  dictionaries of its child nodes in the order of the keys; the scalar entries (names,
  operators, values, positions, parameter lists) are left out.

  \<open>typed_ast_to_dict\<close> starts from \<open>ast_to_dict\<close> of the node and replaces the children it
  has a case for by their typed projections. It has no case for \<open>VarDecl\<close>, whose
  initialiser therefore stays the untyped projection.
\<close>

datatype jnode = JNode string "string option option" "jnode list"

fun ast_to_dict_expr :: "expr \<Rightarrow> jnode" where
  "ast_to_dict_expr (Assign _ name value l c) = JNode ''Assign'' None [ast_to_dict_expr value]"
| "ast_to_dict_expr (Call _ name args l c) = JNode ''Call'' None (map ast_to_dict_expr args)"
| "ast_to_dict_expr (Literal _ v kind) = JNode ''Literal'' None []"
| "ast_to_dict_expr (Var _ name l c) = JNode ''Var'' None []"
| "ast_to_dict_expr (Unary _ op right) = JNode ''Unary'' None [ast_to_dict_expr right]"
| "ast_to_dict_expr (Binary _ left op right) =
     JNode ''Binary'' None [ast_to_dict_expr left, ast_to_dict_expr right]"
| "ast_to_dict_expr (Grouping _ e) = JNode ''Grouping'' None [ast_to_dict_expr e]"

fun typed_ast_to_dict_expr :: "expr \<Rightarrow> jnode" where
  "typed_ast_to_dict_expr (Assign t name value l c) =
     JNode ''Assign'' (Some t) [typed_ast_to_dict_expr value]"
| "typed_ast_to_dict_expr (Call t name args l c) =
     JNode ''Call'' (Some t) (map typed_ast_to_dict_expr args)"
| "typed_ast_to_dict_expr (Literal t v kind) = JNode ''Literal'' (Some t) []"
| "typed_ast_to_dict_expr (Var t name l c) = JNode ''Var'' (Some t) []"
| "typed_ast_to_dict_expr (Unary t op right) =
     JNode ''Unary'' (Some t) [typed_ast_to_dict_expr right]"
| "typed_ast_to_dict_expr (Binary t left op right) =
     JNode ''Binary'' (Some t) [typed_ast_to_dict_expr left, typed_ast_to_dict_expr right]"
| "typed_ast_to_dict_expr (Grouping t e) = JNode ''Grouping'' (Some t) [typed_ast_to_dict_expr e]"

definition opt_child :: "('a \<Rightarrow> jnode) \<Rightarrow> 'a option \<Rightarrow> jnode list" where
  "opt_child f x = (case x of None \<Rightarrow> [] | Some y \<Rightarrow> [f y])"

lemma opt_child_cong [fundef_cong]:
  "x = y \<Longrightarrow> (\<And>z. y = Some z \<Longrightarrow> f z = g z) \<Longrightarrow> opt_child f x = opt_child g y"
  by (cases y) (simp_all add: opt_child_def)

fun ast_to_dict :: "stmt \<Rightarrow> jnode" where
  "ast_to_dict (FunctionDecl rt name params body) =
     JNode ''FunctionDecl'' None [JNode ''Block'' None (map ast_to_dict body)]"
| "ast_to_dict (Block statements) = JNode ''Block'' None (map ast_to_dict statements)"
| "ast_to_dict (VarDecl ty name init l c) = JNode ''VarDecl'' None (opt_child ast_to_dict_expr init)"
| "ast_to_dict (If_stmt cond then_branch else_branch) =
     JNode ''If'' None
       ([ast_to_dict_expr cond, ast_to_dict then_branch] @ opt_child ast_to_dict else_branch)"
| "ast_to_dict (While cond body) = JNode ''While'' None [ast_to_dict_expr cond, ast_to_dict body]"
| "ast_to_dict (For init cond post body) =
     JNode ''For'' None
       (opt_child ast_to_dict init @ opt_child ast_to_dict_expr cond @ opt_child ast_to_dict post
        @ [ast_to_dict body])"
| "ast_to_dict (Print e) = JNode ''Print'' None [ast_to_dict_expr e]"
| "ast_to_dict (Return eo) = JNode ''Return'' None (opt_child ast_to_dict_expr eo)"
| "ast_to_dict (ExprStmt e) = JNode ''ExprStmt'' None [ast_to_dict_expr e]"

fun typed_ast_to_dict :: "stmt \<Rightarrow> jnode" where
  "typed_ast_to_dict (FunctionDecl rt name params body) =
     JNode ''FunctionDecl'' None [JNode ''Block'' None (map typed_ast_to_dict body)]"
| "typed_ast_to_dict (Block statements) = JNode ''Block'' None (map typed_ast_to_dict statements)"
| "typed_ast_to_dict (VarDecl ty name init l c) =
     JNode ''VarDecl'' None (opt_child ast_to_dict_expr init)"
| "typed_ast_to_dict (If_stmt cond then_branch else_branch) =
     JNode ''If'' None
       ([typed_ast_to_dict_expr cond, typed_ast_to_dict then_branch]
        @ opt_child typed_ast_to_dict else_branch)"
| "typed_ast_to_dict (While cond body) =
     JNode ''While'' None [typed_ast_to_dict_expr cond, typed_ast_to_dict body]"
| "typed_ast_to_dict (For init cond post body) =
     JNode ''For'' None
       (opt_child typed_ast_to_dict init @ opt_child typed_ast_to_dict_expr cond
        @ opt_child typed_ast_to_dict post @ [typed_ast_to_dict body])"
| "typed_ast_to_dict (Print e) = JNode ''Print'' None [typed_ast_to_dict_expr e]"
| "typed_ast_to_dict (Return eo) = JNode ''Return'' None (opt_child typed_ast_to_dict_expr eo)"
| "typed_ast_to_dict (ExprStmt e) = JNode ''ExprStmt'' None [typed_ast_to_dict_expr e]"

definition typed_program_to_dict :: "program \<Rightarrow> jnode" where
  "typed_program_to_dict node =
     (case node of Program body \<Rightarrow> JNode ''Program'' None (map typed_ast_to_dict body))"

section \<open>The result of \<open>analyze\<close>\<close>

record analysis =
  typed_root :: program
  typed_json :: jnode
  symbol_table :: "(nat \<times> (string \<rightharpoonup> string)) list"
  result_errors :: "parse_error list"

definition analyze :: "program \<Rightarrow> analysis option" where
  "analyze ast_root =
     (case visit_program ast_root new_analyzer of
        None \<Rightarrow> None
      | Some (root', a) \<Rightarrow>
          Some \<lparr>typed_root = root', typed_json = typed_program_to_dict root',
                symbol_table = to_json (symtab a), result_errors = errors a\<rparr>)"

section \<open>Properties of the semantic analysis\<close>

subsection \<open>Expressions leave the scopes alone and never fail\<close>

lemma err_fields [simp]:
  "symtab (err l c m a) = symtab a"
  "funcs (err l c m a) = funcs a"
  "current_ret (err l c m a) = current_ret a"
  "errors (err l c m a) = errors a @ [\<lparr>message = m, line = l, col = c\<rparr>]"
  by (simp_all add: err_def)

lemma report_fields [simp]:
  "symtab (report msg a) = symtab a"
  "funcs (report msg a) = funcs a"
  "current_ret (report msg a) = current_ret a"
  by (cases msg; simp add: report_def)+

lemma check_bool_fields [simp]:
  "symtab (check_bool w t a) = symtab a"
  "funcs (check_bool w t a) = funcs a"
  "current_ret (check_bool w t a) = current_ret a"
  by (simp_all add: check_bool_def)

definition same_frame :: "analyzer \<Rightarrow> analyzer \<Rightarrow> bool" where
  "same_frame a a' \<longleftrightarrow>
     symtab a' = symtab a \<and> funcs a' = funcs a \<and> current_ret a' = current_ret a"

lemma same_frame_refl [simp]: "same_frame a a"
  by (simp add: same_frame_def)

lemma same_frame_err [simp]:
  "same_frame a (err l c m a')  \<longleftrightarrow> same_frame a a'"
  "same_frame (err l c m a) a'  \<longleftrightarrow> same_frame a a'"
  by (simp_all add: same_frame_def)

lemma same_frame_report [simp]: "same_frame a (report msg a') \<longleftrightarrow> same_frame a a'"
  by (simp add: same_frame_def)

lemma same_frame_check_bool [simp]:
  "same_frame a (check_bool w t a') \<longleftrightarrow> same_frame a a'"
  "same_frame (check_bool w t a) a' \<longleftrightarrow> same_frame a a'"
  by (simp_all add: same_frame_def)

lemma same_frame_trans: "same_frame a b \<Longrightarrow> same_frame b c \<Longrightarrow> same_frame a c"
  by (simp add: same_frame_def)

lemma visit_expr_frame:
  "visit_expr e a = Some (e', t, a') \<Longrightarrow> same_frame a a'"
  "visit_all es a = Some (es', a') \<Longrightarrow> same_frame a a'"
  "visit_zip l c name ps es a = Some (es', a') \<Longrightarrow> same_frame a a'"
proof (induction e a and es a and l c name ps es a
    arbitrary: e' t a' and es' a' and es' a'
    rule: visit_expr_visit_all_visit_zip.induct)
  case (1 uu name "value" l c a)
  show ?case
  proof (cases "resolve name (symtab a)")
    case None
    then show ?thesis using "1.prems" by simp
  next
    case (Some r)
    show ?thesis
    proof (cases r)
      case None
      let ?a = "err l c (''Undeclared variable '' @ quoted name) a"
      from "1.prems" Some None obtain v' vt a1 where
        V: "visit_expr value ?a = Some (v', vt, a1)" and A: "a' = a1"
        by (auto split: option.splits)
      have "same_frame ?a a1" using "1.IH"(1) Some None V by blast
      then show ?thesis using A by simp
    next
      case (Some symb)
      from "1.prems" \<open>resolve name (symtab a) = Some r\<close> Some obtain v' vt a1 where
        V: "visit_expr value a = Some (v', vt, a1)" and A: "same_frame a1 a'"
        by (auto split: option.splits if_splits)
      have "same_frame a a1" using "1.IH"(2) \<open>resolve name (symtab a) = Some r\<close> Some V by blast
      then show ?thesis using A by (rule same_frame_trans)
    qed
  qed
next
  case (2 uv name args l c a)
  show ?case
  proof (cases "funcs a name")
    case None
    let ?a = "err l c (''Call to undefined function '' @ quoted name) a"
    from "2.prems" None obtain args' where V: "visit_all args ?a = Some (args', a')"
      by (auto split: option.splits)
    have "same_frame ?a a'" using "2.IH"(1) None V by blast
    then show ?thesis by simp
  next
    case (Some sig)
    define a1 where "a1 = (if length args \<noteq> length (sig_params sig)
                     then err l c (''Function '' @ quoted name @ '' expects '' @
                                   str_nat (length (sig_params sig)) @ '' arg(s), got '' @
                                   str_nat (length args)) a
                     else a)"
    from "2.prems" Some obtain args' where
      V: "visit_zip l c name (sig_params sig) args a1 = Some (args', a')"
      by (auto split: option.splits simp: a1_def Let_def)
    have "same_frame a1 a'" using "2.IH"(2) [OF Some a1_def V] .
    then show ?thesis by (simp add: a1_def split: if_splits)
  qed
next
  case (3 uw v kind a)
  then show ?case by auto
next
  case (4 ux name l c a)
  then show ?case by (auto split: option.splits)
next
  case (5 uy op right a)
  from "5.prems" obtain r' rt a1 where
    V: "visit_expr right a = Some (r', rt, a1)" and A: "same_frame a1 a'"
    by (auto split: option.splits prod.splits)
  have "same_frame a a1" using "5.IH" V by blast
  then show ?case using A by (rule same_frame_trans)
next
  case (6 uz left op right a)
  from "6.prems" obtain l' lt a1 r' rt a2 where
    L: "visit_expr left a = Some (l', lt, a1)" and
    R: "visit_expr right a1 = Some (r', rt, a2)" and A: "same_frame a2 a'"
    by (auto split: option.splits prod.splits)
  have 1: "same_frame a a1" using "6.IH"(1) L by blast
  have 2: "same_frame a1 a2" using "6.IH"(2) L R by blast
  show ?case using same_frame_trans [OF same_frame_trans [OF 1 2] A] .
next
  case (7 va e a)
  from "7.prems" obtain x' xt where V: "visit_expr e a = Some (x', xt, a')"
    by (auto split: option.splits)
  show ?case using "7.IH" V by blast
next
  case (8 a)
  then show ?case by auto
next
  case (9 x xs a)
  from "9.prems" obtain x' xt a1 xs' where
    L: "visit_expr x a = Some (x', xt, a1)" and
    R: "visit_all xs a1 = Some (xs', a')"
    by (auto split: option.splits)
  have 1: "same_frame a a1" using "9.IH"(1) L by blast
  have 2: "same_frame a1 a'" using "9.IH"(2) L R by blast
  show ?case using same_frame_trans [OF 1 2] .
next
  case (10 l c name args a)
  then show ?case by auto
next
  case (11 l c name p ps a)
  then show ?case by auto
next
  case (12 l c name pt pn ps arg args a)
  from "12.prems" obtain x' xt a1 where
    L: "visit_expr arg a = Some (x', xt, a1)"
    by (auto split: option.splits)
  define a2 where "a2 = (if \<not> assignable pt xt
                     then err l c (''Argument type '' @ xt @ '' incompatible with parameter '' @
                                   pt @ '' in call to '' @ quoted name) a1
                     else a1)"
  from "12.prems" L obtain xs' where R: "visit_zip l c name ps args a2 = Some (xs', a')"
    by (auto split: option.splits simp: a2_def Let_def)
  have 1: "same_frame a a1" using "12.IH"(1) L by blast
  have 2: "same_frame a1 a2" by (simp add: a2_def)
  have 3: "same_frame a2 a'" using "12.IH"(2) [OF L refl refl a2_def R] .
  show ?case using same_frame_trans [OF same_frame_trans [OF 1 2] 3] .
qed

lemma same_frame_symtab: "same_frame a a' \<Longrightarrow> symtab a \<noteq> [] \<Longrightarrow> symtab a' \<noteq> []"
  by (simp add: same_frame_def)

lemma resolve_total: "scopes \<noteq> [] \<Longrightarrow> \<exists>r. resolve name scopes = Some r"
  by (simp add: resolve_def)

lemma visit_expr_total:
  "symtab a \<noteq> [] \<Longrightarrow> \<exists>r. visit_expr e a = Some r"
  "symtab a \<noteq> [] \<Longrightarrow> \<exists>r. visit_all es a = Some r"
  "symtab a \<noteq> [] \<Longrightarrow> \<exists>r. visit_zip l c name ps es a = Some r"
proof (induction e a and es a and l c name ps es a
    rule: visit_expr_visit_all_visit_zip.induct)
  case (1 uu name "value" l c a)
  from resolve_total [OF "1.prems"] obtain r where r: "resolve name (symtab a) = Some r" ..
  show ?case
  proof (cases r)
    case None
    let ?a = "err l c (''Undeclared variable '' @ quoted name) a"
    have "\<exists>r. visit_expr value ?a = Some r"
      using "1.IH"(1) [OF r None] "1.prems" by simp
    then show ?thesis using r None by auto
  next
    case (Some symb)
    have "\<exists>r. visit_expr value a = Some r"
      using "1.IH"(2) [OF r Some] "1.prems" by simp
    then show ?thesis using r Some by auto
  qed
next
  case (2 uv name args l c a)
  show ?case
  proof (cases "funcs a name")
    case None
    let ?a = "err l c (''Call to undefined function '' @ quoted name) a"
    have "\<exists>r. visit_all args ?a = Some r"
      using "2.IH"(1) [OF None] "2.prems" by simp
    then show ?thesis using None by auto
  next
    case (Some sig)
    define a1 where "a1 = (if length args \<noteq> length (sig_params sig)
                     then err l c (''Function '' @ quoted name @ '' expects '' @
                                   str_nat (length (sig_params sig)) @ '' arg(s), got '' @
                                   str_nat (length args)) a
                     else a)"
    have "symtab a1 \<noteq> []" using "2.prems" by (simp add: a1_def)
    then have "\<exists>r. visit_zip l c name (sig_params sig) args a1 = Some r"
      using "2.IH"(2) [OF Some a1_def] by simp
    then show ?thesis using Some by (auto simp: a1_def Let_def)
  qed
next
  case (3 uw v kind a)
  then show ?case by simp
next
  case (4 ux name l c a)
  from resolve_total [OF "4.prems"] obtain r where r: "resolve name (symtab a) = Some r" ..
  then show ?case by (cases r) auto
next
  case (5 uy op right a)
  from "5.IH" [OF "5.prems"] obtain r where "visit_expr right a = Some r" ..
  then show ?case by (cases r) (auto split: prod.splits)
next
  case (6 uz left op right a)
  from "6.IH"(1) [OF "6.prems"] obtain l' lt a1 where
    L: "visit_expr left a = Some (l', lt, a1)" by (metis prod_cases3)
  have "symtab a1 \<noteq> []" using visit_expr_frame(1) [OF L] "6.prems" by (rule same_frame_symtab)
  from "6.IH"(2) [OF L refl refl this] obtain r where R: "visit_expr right a1 = Some r" ..
  show ?case using L R by (cases r) (auto split: prod.splits)
next
  case (7 va e a)
  from "7.IH" [OF "7.prems"] obtain r where "visit_expr e a = Some r" ..
  then show ?case by (cases r) auto
next
  case (8 a)
  then show ?case by simp
next
  case (9 x xs a)
  from "9.IH"(1) [OF "9.prems"] obtain x' xt a1 where
    L: "visit_expr x a = Some (x', xt, a1)" by (metis prod_cases3)
  have "symtab a1 \<noteq> []" using visit_expr_frame(1) [OF L] "9.prems" by (rule same_frame_symtab)
  from "9.IH"(2) [OF L refl refl this] obtain r where R: "visit_all xs a1 = Some r" ..
  show ?case using L R by (cases r) auto
next
  case (10 l c name args a)
  then show ?case by simp
next
  case (11 l c name p ps a)
  then show ?case by simp
next
  case (12 l c name pt pn ps arg args a)
  from "12.IH"(1) [OF "12.prems"] obtain x' xt a1 where
    L: "visit_expr arg a = Some (x', xt, a1)" by (metis prod_cases3)
  define a2 where "a2 = (if \<not> assignable pt xt
                     then err l c (''Argument type '' @ xt @ '' incompatible with parameter '' @
                                   pt @ '' in call to '' @ quoted name) a1
                     else a1)"
  have "symtab a1 \<noteq> []" using visit_expr_frame(1) [OF L] "12.prems" by (rule same_frame_symtab)
  then have "symtab a2 \<noteq> []" by (simp add: a2_def)
  from "12.IH"(2) [OF L refl refl a2_def this] obtain r where
    R: "visit_zip l c name ps args a2 = Some r" ..
  show ?case using L R by (cases r) (auto simp: a2_def Let_def)
qed

subsection \<open>Statements and the scope stack\<close>

text \<open>
  The declarations a statement makes in the scope it is visited in: its own \<open>VarDecl\<close>, and
  those of the branches of an \<open>if\<close> and of the body of a \<open>while\<close>, which are visited in
  the same scope. A block, a \<open>for\<close> and a function push a scope of their own.
\<close>

fun global_decls :: "stmt \<Rightarrow> (string \<times> string) list" where
  "global_decls (VarDecl ty name init l c) = [(name, ty)]"
| "global_decls (If_stmt cond then_branch else_branch) =
     global_decls then_branch @ (case else_branch of None \<Rightarrow> [] | Some e \<Rightarrow> global_decls e)"
| "global_decls (While cond body) = global_decls body"
| "global_decls _ = []"

text \<open>\<open>define_all\<close> defines the declarations in order in one scope; a name that is there stays.\<close>

fun define_all :: "(string \<times> string) list \<Rightarrow> scope \<Rightarrow> scope" where
  "define_all [] cur = cur"
| "define_all ((name, ty) # ds) cur =
     define_all ds (if cur name \<noteq> None then cur
                    else cur(name \<mapsto> \<lparr>sym_name = name, sym_type = ty\<rparr>))"

definition extends :: "analyzer \<Rightarrow> (string \<times> string) list \<Rightarrow> analyzer \<Rightarrow> bool" where
  "extends a ds a' \<longleftrightarrow>
     symtab a' = define_all ds (hd (symtab a)) # tl (symtab a) \<and>
     funcs a' = funcs a \<and> current_ret a' = current_ret a"

definition program_decls :: "program \<Rightarrow> (string \<times> string) list" where
  "program_decls node = (case node of Program body \<Rightarrow> concat (map global_decls body))"
declare visit_block.simps [simp del]

lemma define_all_append: "define_all (ds @ ds') cur = define_all ds' (define_all ds cur)"
  by (induction ds arbitrary: cur) auto

lemma extends_ne: "extends a ds a' \<Longrightarrow> symtab a' \<noteq> []"
  by (simp add: extends_def)

lemma extends_nil: "symtab a \<noteq> [] \<Longrightarrow> same_frame a a' \<Longrightarrow> extends a [] a'"
  by (simp add: extends_def same_frame_def)

lemma extends_trans: "extends a ds a1 \<Longrightarrow> extends a1 ds' a2 \<Longrightarrow> extends a (ds @ ds') a2"
  by (simp add: extends_def define_all_append)

lemma frame_extends: "same_frame a a1 \<Longrightarrow> extends a1 ds a2 \<Longrightarrow> extends a ds a2"
  by (simp add: extends_def same_frame_def)

lemma extends_frame: "extends a ds a1 \<Longrightarrow> same_frame a1 a2 \<Longrightarrow> extends a ds a2"
  by (simp add: extends_def same_frame_def)

lemma extends_err [simp]:
  "extends (err l c m a) ds a' \<longleftrightarrow> extends a ds a'"
  "extends a ds (err l c m a') \<longleftrightarrow> extends a ds a'"
  by (simp_all add: extends_def)

lemma extends_check_bool [simp]:
  "extends (check_bool w t a) ds a' \<longleftrightarrow> extends a ds a'"
  "extends a ds (check_bool w t a') \<longleftrightarrow> extends a ds a'"
  by (simp_all add: extends_def)

definition same_outer :: "analyzer \<Rightarrow> analyzer \<Rightarrow> bool" where
  "same_outer a a' \<longleftrightarrow>
     symtab a' \<noteq> [] \<and> tl (symtab a') = tl (symtab a) \<and>
     funcs a' = funcs a \<and> current_ret a' = current_ret a"

lemma extends_outer: "extends a ds a' \<Longrightarrow> same_outer a a'"
  by (simp add: extends_def same_outer_def)

lemma frame_outer: "symtab a \<noteq> [] \<Longrightarrow> same_frame a a' \<Longrightarrow> same_outer a a'"
  by (simp add: same_frame_def same_outer_def)

lemma same_outer_trans: "same_outer a b \<Longrightarrow> same_outer b c \<Longrightarrow> same_outer a c"
  by (simp add: same_outer_def)

lemma same_outer_check_bool [simp]: "same_outer a (check_bool w t a') \<longleftrightarrow> same_outer a a'"
  by (simp add: same_outer_def)

lemma same_outer_ne: "same_outer a a' \<Longrightarrow> symtab a' \<noteq> []"
  by (simp add: same_outer_def)

lemma expr_step:
  assumes "symtab a \<noteq> []"
  shows "\<exists>e' t a'. visit_expr e a = Some (e', t, a') \<and> same_frame a a'"
proof -
  from visit_expr_total(1) [OF assms] obtain r where r: "visit_expr e a = Some r" ..
  obtain e' t a' where "r = (e', t, a')" by (cases r)
  with r have "visit_expr e a = Some (e', t, a')" by simp
  then show ?thesis using visit_expr_frame(1) by blast
qed

lemma function_decl_no_decls: "is_function_decl s \<Longrightarrow> global_decls s = []"
  by (cases s) simp_all

lemma visit_stmt_extends:
  "symtab a \<noteq> [] \<Longrightarrow> \<exists>s' a'. visit_stmt s a = Some (s', a') \<and> extends a (global_decls s) a'"
  "symtab a \<noteq> [] \<Longrightarrow> \<exists>ss' a'. visit_block ss a = Some (ss', a') \<and> same_frame a a'"
  "symtab a \<noteq> [] \<Longrightarrow>
     \<exists>ss' a'. visit_stmts ss a = Some (ss', a') \<and> extends a (concat (map global_decls ss)) a'"
proof (induction s a and ss a and ss a rule: visit_stmt_visit_block_visit_stmts.induct)
  case (1 statements a)
  from "1.IH" [OF "1.prems"] obtain ss a1 where
    B: "visit_block statements a = Some (ss, a1)" and F: "same_frame a a1" by blast
  have "visit_stmt (Block statements) a = Some (Block ss, a1)" using B by simp
  moreover have "extends a (global_decls (Block statements)) a1"
    using extends_nil [OF "1.prems" F] by simp
  ultimately show ?case by blast
next
  case (2 var_type name init l c a)
  define scopes where "scopes = define_all [(name, var_type)] (hd (symtab a)) # tl (symtab a)"
  have "\<exists>ok. define_sym name var_type (symtab a) = Some (ok, scopes)"
    using "2.prems" by (cases "symtab a") (auto simp: define_sym_def scopes_def)
  then obtain ok where D: "define_sym name var_type (symtab a) = Some (ok, scopes)" ..
  note S = scopes_def
  define a2 where "a2 = (if \<not> ok then err l c (''Redeclaration of '' @ quoted name)
                           (a\<lparr>symtab := scopes\<rparr>) else a\<lparr>symtab := scopes\<rparr>)"
  have E: "extends a [(name, var_type)] a2" by (simp add: a2_def extends_def S)
  show ?case
  proof (cases init)
    case None
    have "visit_stmt (VarDecl var_type name init l c) a = Some (VarDecl var_type name None l c, a2)"
      using None D by (simp add: a2_def Let_def)
    then show ?thesis using E by auto
  next
    case (Some e)
    from expr_step [OF extends_ne [OF E]] obtain e' t a3 where
      V: "visit_expr e a2 = Some (e', t, a3)" and F: "same_frame a2 a3" by blast
    define a4 where "a4 = (if \<not> assignable var_type t
                             then err l c (''Cannot assign '' @ t @ '' to '' @ var_type @
                                           '' in declaration '' @ quoted name) a3
                             else a3)"
    have "visit_stmt (VarDecl var_type name init l c) a =
            Some (VarDecl var_type name (Some e') l c, a4)"
      using Some D V unfolding a4_def a2_def by (simp add: Let_def)
    moreover have "extends a (global_decls (VarDecl var_type name init l c)) a4"
      using extends_frame [OF E F] by (simp add: a4_def)
    ultimately show ?thesis by blast
  qed
next
  case (3 cond then_branch else_branch a)
  from expr_step [OF "3.prems"] obtain c' t a1 where
    C: "visit_expr cond a = Some (c', t, a1)" and F: "same_frame a a1" by blast
  have ne: "symtab (check_bool ''if'' t a1) \<noteq> []"
    using same_frame_symtab [OF F "3.prems"] by simp
  from "3.IH"(1) [OF C refl refl ne] obtain th' a2 where
    T: "visit_stmt then_branch (check_bool ''if'' t a1) = Some (th', a2)" and
    E: "extends (check_bool ''if'' t a1) (global_decls then_branch) a2" by blast
  have E2: "extends a (global_decls then_branch) a2"
    using E F by (simp add: frame_extends)
  show ?case
  proof (cases else_branch)
    case None
    have "visit_stmt (If_stmt cond then_branch else_branch) a = Some (If_stmt c' th' None, a2)"
      using None C T by simp
    then show ?thesis using E2 None by simp
  next
    case (Some e)
    from "3.IH"(2) [OF C refl refl T refl Some extends_ne [OF E]] obtain e' a3 where
      V: "visit_stmt e a2 = Some (e', a3)" and E3: "extends a2 (global_decls e) a3" by blast
    have "visit_stmt (If_stmt cond then_branch else_branch) a =
            Some (If_stmt c' th' (Some e'), a3)"
      using Some C T V by simp
    moreover have "extends a (global_decls (If_stmt cond then_branch else_branch)) a3"
      using extends_trans [OF E2 E3] Some by simp
    ultimately show ?thesis by blast
  qed
next
  case (4 cond body a)
  from expr_step [OF "4.prems"] obtain c' t a1 where
    C: "visit_expr cond a = Some (c', t, a1)" and F: "same_frame a a1" by blast
  have ne: "symtab (check_bool ''while'' t a1) \<noteq> []"
    using same_frame_symtab [OF F "4.prems"] by simp
  from "4.IH" [OF C refl refl ne] obtain b' a2 where
    T: "visit_stmt body (check_bool ''while'' t a1) = Some (b', a2)" and
    E: "extends (check_bool ''while'' t a1) (global_decls body) a2" by blast
  have "visit_stmt (While cond body) a = Some (While c' b', a2)" using C T by simp
  moreover have "extends a (global_decls (While cond body)) a2"
    using E F by (simp add: frame_extends)
  ultimately show ?case by blast
next
  case (5 init cond post body a)
  let ?a0 = "a\<lparr>symtab := push_scope (symtab a)\<rparr>"
  have ne0: "symtab ?a0 \<noteq> []" by (simp add: push_scope_def)
  obtain init' a1 where
    I: "(case init of None \<Rightarrow> Some (None, ?a0)
         | Some s \<Rightarrow>
             (case visit_stmt s ?a0 of
                None \<Rightarrow> None
              | Some (s', a') \<Rightarrow> Some (Some s', a'))) = Some (init', a1)" and
    O1: "same_outer ?a0 a1"
  proof (cases init)
    case None
    show ?thesis by (rule that [of None ?a0]) (simp_all add: None same_outer_def push_scope_def)
  next
    case (Some s)
    from "5.IH"(1) [OF Some ne0] obtain s' a1 where
      V: "visit_stmt s ?a0 = Some (s', a1)" and E: "extends ?a0 (global_decls s) a1" by blast
    show ?thesis
      by (rule that [of "Some s'" a1]) (simp_all add: Some V extends_outer [OF E])
  qed
  obtain cond' a2 where
    C: "(case cond of None \<Rightarrow> Some (None, a1)
         | Some e \<Rightarrow>
             (case visit_expr e a1 of
                None \<Rightarrow> None
              | Some (e', t, a') \<Rightarrow> Some (Some e', check_bool ''for'' t a'))) = Some (cond', a2)"
    and O2: "same_outer a1 a2"
  proof (cases cond)
    case None
    show ?thesis
      by (rule that [of None a1]) (use O1 in \<open>simp_all add: None same_outer_def\<close>)
  next
    case (Some e)
    from expr_step [OF same_outer_ne [OF O1]] obtain e' t a2 where
      V: "visit_expr e a1 = Some (e', t, a2)" and F: "same_frame a1 a2" by blast
    show ?thesis
      by (rule that [of "Some e'" "check_bool ''for'' t a2"])
        (simp_all add: Some V frame_outer [OF same_outer_ne [OF O1] F])
  qed
  obtain post' a3 where
    P: "(case post of None \<Rightarrow> Some (None, a2)
         | Some s \<Rightarrow>
             (case visit_stmt s a2 of
                None \<Rightarrow> None
              | Some (s', a') \<Rightarrow> Some (Some s', a'))) = Some (post', a3)" and
    O3: "same_outer a2 a3"
  proof (cases post)
    case None
    show ?thesis
      by (rule that [of None a2]) (use O2 in \<open>simp_all add: None same_outer_def\<close>)
  next
    case (Some s)
    from "5.IH"(2) [OF I refl C refl Some same_outer_ne [OF O2]] obtain s' a3 where
      V: "visit_stmt s a2 = Some (s', a3)" and E: "extends a2 (global_decls s) a3" by blast
    show ?thesis
      by (rule that [of "Some s'" a3]) (simp_all add: Some V extends_outer [OF E])
  qed
  from "5.IH"(3) [OF I refl C refl P refl same_outer_ne [OF O3]] obtain body' a4 where
    B: "visit_stmt body a3 = Some (body', a4)" and E4: "extends a3 (global_decls body) a4"
    by blast
  have O: "same_outer ?a0 a4"
    using same_outer_trans [OF same_outer_trans [OF same_outer_trans [OF O1 O2] O3]
        extends_outer [OF E4]] .
  have "visit_stmt (For init cond post body) a =
          Some (For init' cond' post' body', a4\<lparr>symtab := pop_scope (symtab a4)\<rparr>)"
    by (simp add: I C P B)
  moreover have "extends a (global_decls (For init cond post body))
                   (a4\<lparr>symtab := pop_scope (symtab a4)\<rparr>)"
    using O "5.prems"
    by (cases "symtab a4") (simp_all add: same_outer_def extends_def push_scope_def pop_scope_def)
  ultimately show ?case by blast
next
  case (6 e a)
  from expr_step [OF "6.prems"] obtain e' t a1 where
    C: "visit_expr e a = Some (e', t, a1)" and F: "same_frame a a1" by blast
  have "visit_stmt (Print e) a = Some (Print e', a1)" using C by simp
  moreover have "extends a (global_decls (Print e)) a1"
    using extends_nil [OF "6.prems" F] by simp
  ultimately show ?case by blast
next
  case (7 eo a)
  show ?case
  proof (cases eo)
    case None
    have "extends a [] a" using extends_nil [OF "7.prems"] by simp
    then show ?thesis using None by (cases "current_ret a") simp_all
  next
    case (Some e)
    from expr_step [OF "7.prems"] obtain e' t a1 where
      C: "visit_expr e a = Some (e', t, a1)" and F: "same_frame a a1" by blast
    have "extends a [] a1" using extends_nil [OF "7.prems" F] .
    then show ?thesis using Some C by (cases "current_ret a") simp_all
  qed
next
  case (8 e a)
  from expr_step [OF "8.prems"] obtain e' t a1 where
    C: "visit_expr e a = Some (e', t, a1)" and F: "same_frame a a1" by blast
  have "visit_stmt (ExprStmt e) a = Some (ExprStmt e', a1)" using C by simp
  moreover have "extends a (global_decls (ExprStmt e)) a1"
    using extends_nil [OF "8.prems" F] by simp
  ultimately show ?case by blast
next
  case (9 rt name params body a)
  have "extends a [] a" using extends_nil [OF "9.prems"] by simp
  then show ?case by simp
next
  case (10 statements a)
  let ?a0 = "a\<lparr>symtab := push_scope (symtab a)\<rparr>"
  have ne0: "symtab ?a0 \<noteq> []" by (simp add: push_scope_def)
  from "10.IH" [OF ne0] obtain ss a1 where
    V: "visit_stmts statements ?a0 = Some (ss, a1)" and
    E: "extends ?a0 (concat (map global_decls statements)) a1" by blast
  have "visit_block statements a = Some (ss, a1\<lparr>symtab := pop_scope (symtab a1)\<rparr>)"
    using V by (simp add: visit_block.simps)
  moreover have "same_frame a (a1\<lparr>symtab := pop_scope (symtab a1)\<rparr>)"
    using E by (simp add: extends_def same_frame_def push_scope_def pop_scope_def)
  ultimately show ?case by blast
next
  case (11 a)
  have "extends a [] a" using extends_nil [OF "11.prems"] by simp
  then show ?case by simp
next
  case (12 s rest a)
  show ?case
  proof (cases "is_function_decl s")
    case True
    let ?a = "err 0 0 ''Nested function declarations not allowed'' a"
    have ne: "symtab ?a \<noteq> []" using "12.prems" by simp
    from "12.IH"(1) [OF True ne] obtain ss a1 where
      V: "visit_stmts rest ?a = Some (ss, a1)" and
      E: "extends ?a (concat (map global_decls rest)) a1" by blast
    have "visit_stmts (s # rest) a = Some (s # ss, a1)" using True V by simp
    moreover have "extends a (concat (map global_decls (s # rest))) a1"
      using E by (simp add: function_decl_no_decls [OF True])
    ultimately show ?thesis by blast
  next
    case False
    from "12.IH"(2) [OF False "12.prems"] obtain s' a1 where
      V: "visit_stmt s a = Some (s', a1)" and E: "extends a (global_decls s) a1" by blast
    from "12.IH"(3) [OF False V refl extends_ne [OF E]] obtain ss a2 where
      W: "visit_stmts rest a1 = Some (ss, a2)" and
      E2: "extends a1 (concat (map global_decls rest)) a2" by blast
    have "visit_stmts (s # rest) a = Some (s' # ss, a2)" using False V W by simp
    moreover have "extends a (concat (map global_decls (s # rest))) a2"
      using extends_trans [OF E E2] by simp
    ultimately show ?thesis by blast
  qed
qed

subsection \<open>Functions and the program\<close>

text \<open>
  The names that \<open>define_params\<close> finds already defined: \<open>repeated seen names\<close> lists, in
  order, the names that are in \<open>seen\<close> or occur earlier in \<open>names\<close>.
\<close>

fun repeated :: "string set \<Rightarrow> string list \<Rightarrow> string list" where
  "repeated seen [] = []"
| "repeated seen (n # ns) =
     (if n \<in> seen then n # repeated seen ns else repeated (insert n seen) ns)"

definition param_redeclared :: "string \<Rightarrow> parse_error" where
  "param_redeclared n = \<lparr>message = ''Parameter redeclared: '' @ n, line = 0, col = 0\<rparr>"

lemma define_params_errors:
  "symtab a \<noteq> [] \<Longrightarrow>
     \<exists>a'. define_params ps a = Some a' \<and>
          errors a' = errors a @ map param_redeclared
                                   (repeated (dom (hd (symtab a))) (map p_name ps)) \<and>
          same_outer a a'"
proof (induction ps arbitrary: a)
  case Nil
  then show ?case by (simp add: same_outer_def)
next
  case (Cons p ps)
  from Cons.prems obtain cur outer where S: "symtab a = cur # outer"
    by (cases "symtab a") auto
  show ?case
  proof (cases "cur (p_name p)")
    case None
    let ?a1 = "a\<lparr>symtab := cur(p_name p \<mapsto> \<lparr>sym_name = p_name p, sym_type = p_type p\<rparr>) # outer\<rparr>"
    have "symtab ?a1 \<noteq> []" by simp
    from Cons.IH [OF this] obtain a' where
      D: "define_params ps ?a1 = Some a'" and
      E: "errors a' = errors ?a1 @ map param_redeclared
                        (repeated (dom (hd (symtab ?a1))) (map p_name ps))" and
      O: "same_outer ?a1 a'" by blast
    have "define_params (p # ps) a = Some a'"
      using D S None by (simp add: define_sym_def)
    moreover have "errors a' = errors a @ map param_redeclared
                     (repeated (dom (hd (symtab a))) (map p_name (p # ps)))"
      using E S None by (simp add: domIff)
    moreover have "same_outer a a'" using O S by (simp add: same_outer_def)
    ultimately show ?thesis by blast
  next
    case (Some y)
    let ?a1 = "err 0 0 (''Parameter redeclared: '' @ p_name p) (a\<lparr>symtab := symtab a\<rparr>)"
    have "symtab ?a1 \<noteq> []" using S by simp
    from Cons.IH [OF this] obtain a' where
      D: "define_params ps ?a1 = Some a'" and
      E: "errors a' = errors ?a1 @ map param_redeclared
                        (repeated (dom (hd (symtab ?a1))) (map p_name ps))" and
      O: "same_outer ?a1 a'" by blast
    have "define_params (p # ps) a = Some a'"
      using D S Some by (simp add: define_sym_def)
    moreover have "errors a' = errors a @ map param_redeclared
                     (repeated (dom (hd (symtab a))) (map p_name (p # ps)))"
      using E S Some by (simp add: domI param_redeclared_def)
    moreover have "same_outer a a'" using O S by (simp add: same_outer_def)
    ultimately show ?thesis by blast
  qed
qed

lemma pop_scope_tl: "pop_scope scopes = tl scopes"
  by (cases scopes) (simp_all add: pop_scope_def)

lemma visit_function_frame:
  assumes "symtab a \<noteq> []"
  shows "\<exists>s' a'. visit_function rt name ps body a = Some (s', a') \<and> same_frame a a'"
proof -
  let ?a2 = "a\<lparr>current_ret := Some rt, symtab := push_scope (symtab a)\<rparr>"
  have ne: "symtab ?a2 \<noteq> []" by (simp add: push_scope_def)
  from define_params_errors [OF ne] obtain a3 where
    D: "define_params ps ?a2 = Some a3" and O: "same_outer ?a2 a3" by blast
  from visit_stmt_extends(2) [OF same_outer_ne [OF O]] obtain body' a4 where
    B: "visit_block body a3 = Some (body', a4)" and F: "same_frame a3 a4" by blast
  have "visit_function rt name ps body a =
          Some (FunctionDecl rt name ps body',
                a4\<lparr>symtab := pop_scope (symtab a4), current_ret := current_ret a\<rparr>)"
    using D B by (simp add: visit_function_def Let_def)
  moreover have "same_frame a (a4\<lparr>symtab := pop_scope (symtab a4), current_ret := current_ret a\<rparr>)"
    using O F by (simp add: same_outer_def same_frame_def push_scope_def pop_scope_tl)
  ultimately show ?thesis by blast
qed

lemma collect_funcs_symtab [simp]: "symtab (collect_funcs body a) = symtab a"
  by (induction body a rule: collect_funcs.induct) simp_all

lemma visit_top_extends:
  "symtab a \<noteq> [] \<Longrightarrow>
     \<exists>ss a'. visit_top body a = Some (ss, a') \<and> extends a (concat (map global_decls body)) a'"
proof (induction body arbitrary: a)
  case Nil
  then show ?case using extends_nil [of a a] by simp
next
  case (Cons s rest)
  have "\<exists>s' a1. (case s of
                   FunctionDecl rt name params body \<Rightarrow> visit_function rt name params body a
                 | _ \<Rightarrow> visit_stmt s a) = Some (s', a1) \<and> extends a (global_decls s) a1"
  proof (cases "is_function_decl s")
    case True
    then obtain rt name params body where s: "s = FunctionDecl rt name params body"
      by (cases s) simp_all
    from visit_function_frame [OF Cons.prems] obtain s' a1 where
      "visit_function rt name params body a = Some (s', a1)" and "same_frame a a1" by blast
    then show ?thesis using s extends_nil [OF Cons.prems] by auto
  next
    case False
    from visit_stmt_extends(1) [OF Cons.prems] obtain s' a1 where
      "visit_stmt s a = Some (s', a1)" and "extends a (global_decls s) a1" by blast
    then show ?thesis using False by (cases s) auto
  qed
  then obtain s' a1 where
    V: "(case s of
           FunctionDecl rt name params body \<Rightarrow> visit_function rt name params body a
         | _ \<Rightarrow> visit_stmt s a) = Some (s', a1)" and
    E: "extends a (global_decls s) a1" by blast
  from Cons.IH [OF extends_ne [OF E]] obtain ss a2 where
    W: "visit_top rest a1 = Some (ss, a2)" and
    E2: "extends a1 (concat (map global_decls rest)) a2" by blast
  have "visit_top (s # rest) a = Some (s' # ss, a2)" using V W by simp
  moreover have "extends a (concat (map global_decls (s # rest))) a2"
    using extends_trans [OF E E2] by simp
  ultimately show ?case by blast
qed

lemma define_all_lookup:
  "map_option sym_type (define_all ds cur x) =
     (case cur x of Some s \<Rightarrow> Some (sym_type s) | None \<Rightarrow> map_of ds x)"
proof (induction ds arbitrary: cur)
  case Nil
  then show ?case by (simp split: option.splits)
next
  case (Cons d ds)
  obtain name ty where d: "d = (name, ty)" by (cases d)
  define cur' where "cur' = (if cur name \<noteq> None then cur
                             else cur(name \<mapsto> \<lparr>sym_name = name, sym_type = ty\<rparr>))"
  have "define_all (d # ds) cur = define_all ds cur'" by (simp add: d cur'_def)
  then have "map_option sym_type (define_all (d # ds) cur x) =
               (case cur' x of Some s \<Rightarrow> Some (sym_type s) | None \<Rightarrow> map_of ds x)"
    by (simp only: Cons.IH)
  also have "\<dots> = (case cur x of Some s \<Rightarrow> Some (sym_type s) | None \<Rightarrow> map_of (d # ds) x)"
  proof (cases "cur name")
    case None
    then show ?thesis by (cases "x = name") (simp_all add: cur'_def d split: option.splits)
  next
    case (Some y)
    then show ?thesis by (cases "x = name") (simp_all add: cur'_def d split: option.splits)
  qed
  finally show ?case .
qed

lemma define_all_types: "map_option sym_type \<circ> define_all ds Map.empty = map_of ds"
  by (rule ext) (simp add: define_all_lookup)

lemma analyze_global_scope:
  "\<exists>r. analyze p = Some r \<and> symbol_table r = [(0, map_of (program_decls p))]"
proof -
  obtain body where p: "p = Program body" by (cases p)
  let ?a = "collect_funcs body new_analyzer"
  have ne: "symtab ?a \<noteq> []" by (simp add: new_analyzer_def)
  from visit_top_extends [OF ne] obtain ss a' where
    V: "visit_top body ?a = Some (ss, a')" and
    E: "extends ?a (concat (map global_decls body)) a'" by blast
  have S: "symtab a' = [define_all (concat (map global_decls body)) Map.empty]"
    using E by (simp add: extends_def new_analyzer_def)
  have "analyze p = Some \<lparr>typed_root = Program ss, typed_json = typed_program_to_dict (Program ss),
                symbol_table = to_json (symtab a'), result_errors = errors a'\<rparr>"
    using V p by (simp add: analyze_def visit_program_def)
  moreover have "to_json (symtab a') = [(0, map_of (program_decls p))]"
    by (simp add: S p to_json_def program_decls_def define_all_types)
  ultimately show ?thesis by simp
qed

subsection \<open>A declaration in a function body that has the name of a parameter\<close>

text \<open>
  Claim C5, counterexample: \<^verbatim>\<open>int f(int a) { int a; }\<close> is analysed without any
  diagnostic. \<open>visit_function\<close> pushes a scope and defines \<open>a\<close> in it; \<open>visit_block\<close> pushes
  another scope for the body, in which \<open>a\<close> is not yet defined.
\<close>

theorem analyze_param_shadowed:
  "map_option result_errors
     (analyze (Program [FunctionDecl ''int'' ''f'' [Param ''int'' ''a'']
                          [VarDecl ''int'' ''a'' None 1 16]])) = Some []"
  by (simp add: analyze_def visit_program_def new_analyzer_def visit_function_def push_scope_def
      pop_scope_def define_sym_def visit_block.simps)

text \<open>
  Claim C5, amended: the parameters are defined in a scope that \<open>visit_function\<close> pushes,
  and the body block is analysed in a scope of its own nested in it. So a variable declared
  at the top level of the body shadows a parameter of the same name and no redeclaration
  diagnostic is reported for it: the analysis of a function whose body is the single
  declaration \<^verbatim>\<open>T x;\<close> succeeds, leaves the node as it is, and adds exactly the
  \<^verbatim>\<open>Parameter redeclared\<close> diagnostics of the parameter names that repeat an earlier
  parameter, whether or not \<open>x\<close> is the name of a parameter.
\<close>

theorem visit_function_body_decl_shadows:
  assumes "symtab a \<noteq> []"
  shows "\<exists>a'. visit_function rt f params [VarDecl ty x None l c] a =
                 Some (FunctionDecl rt f params [VarDecl ty x None l c], a') \<and>
              errors a' = errors a @ map param_redeclared (repeated {} (map p_name params))"
proof -
  let ?a2 = "a\<lparr>current_ret := Some rt, symtab := push_scope (symtab a)\<rparr>"
  have ne: "symtab ?a2 \<noteq> []" by (simp add: push_scope_def)
  from define_params_errors [OF ne] obtain a3 where
    D: "define_params params ?a2 = Some a3" and
    E: "errors a3 = errors ?a2 @ map param_redeclared
                       (repeated (dom (hd (symtab ?a2))) (map p_name params))" and
    O: "same_outer ?a2 a3" by blast
  let ?a4 = "a3\<lparr>symtab := pop_scope
                  ([x \<mapsto> \<lparr>sym_name = x, sym_type = ty\<rparr>] # symtab a3)\<rparr>"
  have B: "visit_block [VarDecl ty x None l c] a3 = Some ([VarDecl ty x None l c], ?a4)"
    by (simp add: visit_block.simps push_scope_def define_sym_def)
  let ?a' = "?a4\<lparr>symtab := pop_scope (symtab ?a4), current_ret := current_ret a\<rparr>"
  have "visit_function rt f params [VarDecl ty x None l c] a =
          Some (FunctionDecl rt f params [VarDecl ty x None l c], ?a')"
    using D B by (simp add: visit_function_def Let_def)
  moreover have "errors ?a' = errors a @ map param_redeclared (repeated {} (map p_name params))"
    using E by (simp add: push_scope_def)
  ultimately show ?thesis by blast
qed

theorem visit_function_body_decl_shadows_witness:
  "\<exists>a'. visit_function ''int'' ''f'' [Param ''int'' ''a'', Param ''int'' ''b'', Param ''float'' ''a'']
            [VarDecl ''int'' ''a'' None 1 36] new_analyzer =
          Some (FunctionDecl ''int'' ''f''
                  [Param ''int'' ''a'', Param ''int'' ''b'', Param ''float'' ''a'']
                  [VarDecl ''int'' ''a'' None 1 36], a') \<and>
        errors a' = [\<lparr>message = ''Parameter redeclared: a'', line = 0, col = 0\<rparr>]"
  using visit_function_body_decl_shadows [of new_analyzer "''int''" "''f''"
      "[Param ''int'' ''a'', Param ''int'' ''b'', Param ''float'' ''a'']" "''int''" "''a''" 1 36]
  by (simp add: new_analyzer_def param_redeclared_def)

subsection \<open>The symbol table of the result\<close>

text \<open>
  The parser builds the branches of an \<open>if\<close> and the body of a \<open>while\<close> with
  \<^verbatim>\<open>statement()\<close>, which never returns a variable declaration (\<^verbatim>\<open>declaration()\<close>
  does, for the program and for a block). \<open>parsed_branches\<close> says this of the top-level
  statements of a program.
\<close>

fun is_var_decl :: "stmt \<Rightarrow> bool" where
  "is_var_decl (VarDecl _ _ _ _ _) = True"
| "is_var_decl _ = False"

fun no_branch_decl :: "stmt \<Rightarrow> bool" where
  "no_branch_decl (If_stmt cond then_branch else_branch) =
     (\<not> is_var_decl then_branch \<and> no_branch_decl then_branch \<and>
      (case else_branch of None \<Rightarrow> True | Some e \<Rightarrow> \<not> is_var_decl e \<and> no_branch_decl e))"
| "no_branch_decl (While cond body) = (\<not> is_var_decl body \<and> no_branch_decl body)"
| "no_branch_decl _ = True"

definition parsed_branches :: "program \<Rightarrow> bool" where
  "parsed_branches node = (case node of Program body \<Rightarrow> list_all no_branch_decl body)"

text \<open>The top-level variable declarations of a program, each name with its declared type.\<close>

fun var_decl_of :: "stmt \<Rightarrow> (string \<times> string) list" where
  "var_decl_of (VarDecl ty name init l c) = [(name, ty)]"
| "var_decl_of _ = []"

definition top_level_decls :: "program \<Rightarrow> (string \<times> string) list" where
  "top_level_decls node = (case node of Program body \<Rightarrow> concat (map var_decl_of body))"

lemma not_var_decl: "\<not> is_var_decl s \<Longrightarrow> var_decl_of s = []"
  by (cases s) simp_all

lemma no_branch_decl_decls: "no_branch_decl s \<Longrightarrow> global_decls s = var_decl_of s"
proof (induction s rule: no_branch_decl.induct)
  case (1 cond then_branch else_branch)
  have t: "global_decls then_branch = []"
    using 1 by (simp add: not_var_decl)
  have e: "(case else_branch of None \<Rightarrow> [] | Some e \<Rightarrow> global_decls e) = []"
  proof (cases else_branch)
    case None
    then show ?thesis by simp
  next
    case (Some e)
    then show ?thesis using "1.IH"(2) [OF Some] "1.prems" by (simp add: not_var_decl)
  qed
  show ?case using t e by simp
next
  case (2 cond body)
  then show ?case by (simp add: not_var_decl)
qed simp_all

lemma parsed_branches_decls: "parsed_branches p \<Longrightarrow> program_decls p = top_level_decls p"
proof -
  assume a: "parsed_branches p"
  obtain body where p: "p = Program body" by (cases p)
  have "list_all no_branch_decl body \<Longrightarrow>
          concat (map global_decls body) = concat (map var_decl_of body)"
    by (induction body) (simp_all add: no_branch_decl_decls)
  then show ?thesis using a by (simp add: p parsed_branches_def program_decls_def top_level_decls_def)
qed

text \<open>
  Claim C10: the analysis of a program returns, and the \<^verbatim>\<open>symbol_table\<close> of its result
  has exactly one scope entry, of level \<open>0\<close>, whose symbols are the top-level variable
  declarations of the program: every scope that a block, a \<open>for\<close> or a function pushed has
  been popped, and nothing declared in them is left. \<open>map_of\<close> gives a name the type of its
  first declaration, the one that \<open>define\<close> accepts; a later declaration of the name is
  rejected with a diagnostic and changes nothing.
\<close>

theorem analyze_symbol_table:
  assumes "parsed_branches p"
  shows "\<exists>r. analyze p = Some r \<and> symbol_table r = [(0, map_of (top_level_decls p))]"
  using analyze_global_scope [of p] parsed_branches_decls [OF assms] by simp

theorem analyze_symbol_table_witness:
  "\<exists>r. analyze (Program
          [VarDecl ''int'' ''x'' None 1 1,
           FunctionDecl ''int'' ''f'' [Param ''int'' ''a''] [VarDecl ''int'' ''y'' None 2 16],
           VarDecl ''float'' ''x'' None 3 1,
           If_stmt (Literal None (BoolLit True) ''bool'')
             (Block [VarDecl ''int'' ''z'' None 4 13]) None]) = Some r \<and>
        symbol_table r = [(0, [''x'' \<mapsto> ''int''])]"
  using analyze_symbol_table [of "Program
          [VarDecl ''int'' ''x'' None 1 1,
           FunctionDecl ''int'' ''f'' [Param ''int'' ''a''] [VarDecl ''int'' ''y'' None 2 16],
           VarDecl ''float'' ''x'' None 3 1,
           If_stmt (Literal None (BoolLit True) ''bool'')
             (Block [VarDecl ''int'' ''z'' None 4 13]) None]"]
  by (simp add: parsed_branches_def top_level_decls_def)

end
